theory Spec2Isabelle
  imports Main "HOL-Library.AList" "HOL-Library.List_Lexorder" "HOL-Library.Char_ord"
    "HOL-Library.Multiset"
begin

section \<open>Package gors: data model\<close>

text \<open>
  The package is a thin layer over Go's standard library. Its own code (gors.go) is
  embedded function by function. What Go itself provides is modelled as follows.
  \<^item> A \<^verbatim>\<open>map[string]string\<close> is a reference: a nil pointer or the address of a table
    in the heap. The table is an association list. A \<^verbatim>\<open>range\<close> loop visits its
    entries in an order that the runtime chooses anew for every loop; the choices
    are read from the state.
  \<^item> A \<^verbatim>\<open>*Request\<close> held by client code is the address of a Request struct in the
    state. The methods are written over the struct; a call through a pointer loads
    it.
  \<^item> A run-time panic is a value of the result type.
  \<^item> \<^verbatim>\<open>[]byte\<close> and \<^verbatim>\<open>string\<close> are byte lists; an \<^verbatim>\<open>error\<close> is its message.
  \<^item> \<^verbatim>\<open>time.Duration\<close> and instants of time are integers (nanoseconds).
\<close>

type_synonym bytes = string
type_synonym error = string
type_synonym addr = nat
type_synonym gomap = "(string \<times> string) list"
type_synonym Values = "(string \<times> string list) list"
type_synonym Header = "(string \<times> string list) list"

datatype panic = NilMapAssignment | NilPointerDereference

datatype 'a outcome = Panic panic | Return 'a

text \<open>The dynamic values passed as \<^verbatim>\<open>interface{}\<close> to the setters.\<close>

datatype go_any = AString string | AInt int | ABool bool

text \<open>\<^verbatim>\<open>net/url.URL\<close> (without the user-info and raw-fragment fields).\<close>

record URL =
  url_Scheme :: string
  url_Opaque :: string
  url_Host :: string
  url_Path :: string
  url_RawPath :: string
  url_OmitHost :: bool
  url_ForceQuery :: bool
  url_RawQuery :: string
  url_Fragment :: string

text \<open>
  \<^verbatim>\<open>context.Context\<close>: the background context and the two derived forms that
  \<^verbatim>\<open>context.WithDeadline\<close> builds.
\<close>

datatype Context = Background | WithCancel Context | WithDeadline Context int

text \<open>\<^verbatim>\<open>net/http.Request\<close> as built by \<^verbatim>\<open>http.NewRequestWithContext\<close>.\<close>

record http_Request =
  req_ctx :: Context
  req_Method :: string
  req_URL :: URL
  req_Header :: Header
  req_Body :: bytes

text \<open>
  \<^verbatim>\<open>net/http.Response\<close>. The body is a stream: an identity, the bytes it delivers,
  and the error (if any) that ends it instead of end-of-file.
\<close>

record body_stream =
  stream_id :: nat
  stream_data :: bytes
  stream_err :: "error option"

record Response =
  StatusCode :: int
  resp_Body :: body_stream

text \<open>Calls with an effect outside the program, in the order they are made.\<close>

datatype event =
    EvDo http_Request
  | EvCancel Context
  | EvReadAll nat
  | EvClose nat
  | EvUnmarshal bytes

text \<open>The two structs of gors.go.\<close>

record Request =
  baseURL :: string
  Method :: string
  Path :: string
  Query :: "addr option"
  Body :: bytes
  Headers :: "addr option"
  Timeout :: int

record Client =
  BaseURL :: string
  DefaultHeaders :: "addr option"

text \<open>
  The program state: the heap of map tables (addresses below \<open>next_addr\<close> are
  allocated), the Request structs that pointers refer to, the effects so far, the
  wall clock read by \<^verbatim>\<open>time.Now\<close>, and the choices of visiting order that the
  runtime will make for the \<^verbatim>\<open>range\<close> loops to come, one per loop.
\<close>

record state =
  heap :: "addr \<Rightarrow> gomap"
  next_addr :: addr
  requests :: "addr \<Rightarrow> Request"
  events :: "event list"
  clock :: int
  tape :: "nat list list"

definition Second :: int where
  "Second = 1000000000"

section \<open>Go built-ins used by the package\<close>

text \<open>\<^verbatim>\<open>make(map[string]string)\<close>: a fresh, empty table.\<close>

definition make_map :: "state \<Rightarrow> addr \<times> state" where
  "make_map s = (next_addr s, s\<lparr>heap := (heap s)(next_addr s := []), next_addr := Suc (next_addr s)\<rparr>)"

text \<open>\<^verbatim>\<open>m[k] = v\<close>: panics on a nil map.\<close>

definition map_assign :: "addr option \<Rightarrow> string \<Rightarrow> string \<Rightarrow> state \<Rightarrow> state outcome" where
  "map_assign m k v s =
     (case m of
        None \<Rightarrow> Panic NilMapAssignment
      | Some a \<Rightarrow> Return (s\<lparr>heap := (heap s)(a := AList.update k v (heap s a))\<rparr>))"

text \<open>The entries of a map: none for a nil map.\<close>

definition map_entries :: "addr option \<Rightarrow> state \<Rightarrow> gomap" where
  "map_entries m s = (case m of None \<Rightarrow> [] | Some a \<Rightarrow> heap s a)"

text \<open>
  The order of a \<^verbatim>\<open>range\<close> loop is not specified and differs from loop to loop.
  A choice is a list of positions: \<open>permute\<close> inserts the entries one by one at the
  chosen positions. Every choice gives a permutation of the entries, and every
  permutation is given by some choice (lemmas \<open>mset_permute\<close> and
  \<open>permute_any_order\<close> below); the empty choice keeps the order of the table.
\<close>

definition insert_at :: "nat \<Rightarrow> 'a \<Rightarrow> 'a list \<Rightarrow> 'a list" where
  "insert_at i x xs = take i xs @ x # drop i xs"

fun permute :: "nat list \<Rightarrow> 'a list \<Rightarrow> 'a list" where
  "permute code [] = []"
| "permute [] (x # xs) = x # xs"
| "permute (i # code) (x # xs) = insert_at i x (permute code xs)"

definition next_choice :: "state \<Rightarrow> nat list" where
  "next_choice s = (case tape s of [] \<Rightarrow> [] | code # codes \<Rightarrow> code)"

text \<open>
  \<^verbatim>\<open>range m\<close>: the entries in the order this loop visits them, and the state in
  which the runtime has made that choice.
\<close>

definition map_range :: "addr option \<Rightarrow> state \<Rightarrow> gomap" where
  "map_range m s = permute (next_choice s) (map_entries m s)"

definition after_range :: "state \<Rightarrow> state" where
  "after_range s = s\<lparr>tape := tl (tape s)\<rparr>"

text \<open>\<^verbatim>\<open>fmt.Sprintf("%v", value)\<close> on the three dynamic types.\<close>

definition digit_char :: "nat \<Rightarrow> char" where
  "digit_char d = char_of (48 + d)"

function nat_to_dec :: "nat \<Rightarrow> string" where
  "nat_to_dec n = (if n < 10 then [digit_char n] else nat_to_dec (n div 10) @ [digit_char (n mod 10)])"
  by pat_completeness auto
termination
  by (relation "measure id") auto

declare nat_to_dec.simps [simp del]

definition Sprintf_v :: "go_any \<Rightarrow> string" where
  "Sprintf_v value =
     (case value of
        AString s \<Rightarrow> s
      | AInt i \<Rightarrow> (if i < 0 then CHR ''-'' # nat_to_dec (nat (- i)) else nat_to_dec (nat i))
      | ABool b \<Rightarrow> (if b then ''true'' else ''false''))"

text \<open>\<^verbatim>\<open>strings.HasSuffix\<close>.\<close>

definition HasSuffix :: "string \<Rightarrow> string \<Rightarrow> bool" where
  "HasSuffix s suffix =
     (length s \<ge> length suffix \<and> drop (length s - length suffix) s = suffix)"

section \<open>Client and Request: construction and setters\<close>

text \<open>\<^verbatim>\<open>func NewClient(baseUrl string) Client\<close>\<close>

definition NewClient :: "string \<Rightarrow> Client" where
  "NewClient baseUrl = \<lparr>BaseURL = baseUrl, DefaultHeaders = None\<rparr>"

text \<open>\<^verbatim>\<open>func (c *Client) SetDefaultHeaders(h map[string]string)\<close>: stores the reference.\<close>

definition SetDefaultHeaders :: "Client \<Rightarrow> addr option \<Rightarrow> Client" where
  "SetDefaultHeaders c h = c\<lparr>DefaultHeaders := h\<rparr>"

text \<open>\<^verbatim>\<open>func (c *Client) AddDefaultHeader(key string, value interface{})\<close>\<close>

definition AddDefaultHeader :: "Client \<Rightarrow> string \<Rightarrow> go_any \<Rightarrow> state \<Rightarrow> (Client \<times> state) outcome" where
  "AddDefaultHeader c key value s =
     (let (c1, s1) =
        (if DefaultHeaders c = None
         then (let (a, s') = make_map s in (c\<lparr>DefaultHeaders := Some a\<rparr>, s'))
         else (c, s))
      in case map_assign (DefaultHeaders c1) key (Sprintf_v value) s1 of
           Panic p \<Rightarrow> Panic p
         | Return s2 \<Rightarrow> Return (c1, s2))"

text \<open>\<^verbatim>\<open>func (r *Request) SetTimeout(d time.Duration)\<close>\<close>

definition SetTimeout :: "Request \<Rightarrow> int \<Rightarrow> Request" where
  "SetTimeout r d = r\<lparr>Timeout := d\<rparr>"

text \<open>\<^verbatim>\<open>func (r *Request) SetHeader(key string, value interface{})\<close>\<close>

definition SetHeader :: "Request \<Rightarrow> string \<Rightarrow> go_any \<Rightarrow> state \<Rightarrow> state outcome" where
  "SetHeader r key value s = map_assign (Headers r) key (Sprintf_v value) s"

text \<open>\<^verbatim>\<open>func (r *Request) SetQuery(key string, value interface{})\<close>\<close>

definition SetQuery :: "Request \<Rightarrow> string \<Rightarrow> go_any \<Rightarrow> state \<Rightarrow> state outcome" where
  "SetQuery r key value s = map_assign (Query r) key (Sprintf_v value) s"

text \<open>\<^verbatim>\<open>func (r *Request) SetBody(body []byte)\<close>\<close>

definition SetBody :: "Request \<Rightarrow> bytes \<Rightarrow> Request" where
  "SetBody r body = r\<lparr>Body := body\<rparr>"

text \<open>
  The loop of \<^verbatim>\<open>NewRequest\<close>:
  \<^verbatim>\<open>for k, v := range c.DefaultHeaders { request.SetHeader(k, v) }\<close>
\<close>

fun copy_headers :: "Request \<Rightarrow> gomap \<Rightarrow> state \<Rightarrow> state outcome" where
  "copy_headers request [] s = Return s"
| "copy_headers request ((k, v) # kvs) s =
     (case SetHeader request k (AString v) s of
        Panic p \<Rightarrow> Panic p
      | Return s' \<Rightarrow> copy_headers request kvs s')"

text \<open>\<^verbatim>\<open>func (c Client) NewRequest(method string, path string) *Request\<close>\<close>

definition NewRequest :: "Client \<Rightarrow> string \<Rightarrow> string \<Rightarrow> state \<Rightarrow> (Request \<times> state) outcome" where
  "NewRequest c method path s =
     (let (q, s1) = make_map s;
          (h, s2) = make_map s1;
          request = \<lparr>baseURL = BaseURL c, Method = method, Path = path,
                     Query = Some q, Body = [], Headers = Some h,
                     Timeout = 10 * Second\<rparr>
      in case copy_headers request (map_range (DefaultHeaders c) s2) (after_range s2) of
           Panic p \<Rightarrow> Panic p
         | Return s3 \<Rightarrow> Return (request, s3))"

text \<open>
  \<^verbatim>\<open>func (r *Request) SetJSONBody(v interface{}) error\<close>. The encoder
  \<^verbatim>\<open>json.Marshal\<close> is a parameter.
\<close>

definition SetJSONBody ::
  "('v \<Rightarrow> error + bytes) \<Rightarrow> Request \<Rightarrow> 'v \<Rightarrow> state \<Rightarrow> (error option \<times> Request \<times> state) outcome" where
  "SetJSONBody json_Marshal r v s =
     (case json_Marshal v of
        Inl err \<Rightarrow> Return (Some err, r, s)
      | Inr j \<Rightarrow>
          (let r1 = r\<lparr>Body := j\<rparr>
           in case SetHeader r1 ''Content-Type'' (AString ''application/json'') s of
                Panic p \<Rightarrow> Panic p
              | Return s1 \<Rightarrow> Return (None, r1, s1)))"

section \<open>Standard library: package path\<close>

text \<open>
  \<^verbatim>\<open>path.Clean\<close>. The output buffer is a byte list whose length is the write
  index \<open>w\<close> of the Go code; \<open>dotdot\<close> is the index where backtracking stops.
  \<open>shrink\<close> is the inner loop
  \<^verbatim>\<open>for out.w > dotdot && out.index(out.w) != '/' { out.w-- }\<close>.
\<close>

function shrink :: "string \<Rightarrow> nat \<Rightarrow> nat \<Rightarrow> nat" where
  "shrink out dotdot w =
     (if w > dotdot \<and> out ! w \<noteq> CHR ''/'' then shrink out dotdot (w - 1) else w)"
  by pat_completeness auto
termination
  by (relation "measure (\<lambda>(out, dotdot, w). w)") auto

declare shrink.simps [simp del]

function clean_loop :: "bool \<Rightarrow> string \<Rightarrow> string \<Rightarrow> nat \<Rightarrow> string" where
  "clean_loop rooted [] out dotdot = out"
| "clean_loop rooted (c # rest) out dotdot =
     (if c = CHR ''/'' then
        clean_loop rooted rest out dotdot
      else if c = CHR ''.'' \<and> (rest = [] \<or> hd rest = CHR ''/'') then
        clean_loop rooted rest out dotdot
      else if c = CHR ''.'' \<and> rest \<noteq> [] \<and> hd rest = CHR ''.''
              \<and> (tl rest = [] \<or> hd (tl rest) = CHR ''/'') then
        (if length out > dotdot then
           clean_loop rooted (tl rest) (take (shrink out dotdot (length out - 1)) out) dotdot
         else if \<not> rooted then
           (let out1 = (if length out > 0 then out @ ''/'' else out) @ ''..''
            in clean_loop rooted (tl rest) out1 (length out1))
         else
           clean_loop rooted (tl rest) out dotdot)
      else
        (let out1 = (if rooted \<and> length out \<noteq> 1 \<or> \<not> rooted \<and> length out \<noteq> 0
                     then out @ ''/'' else out)
         in clean_loop rooted (dropWhile (\<lambda>x. x \<noteq> CHR ''/'') rest)
              (out1 @ c # takeWhile (\<lambda>x. x \<noteq> CHR ''/'') rest) dotdot))"
  by pat_completeness auto
termination
  by (relation "measure (\<lambda>(rooted, p, out, dotdot). length p)")
     (auto simp: less_Suc_eq_le length_dropWhile_le)

definition Clean :: "string \<Rightarrow> string" where
  "Clean p =
     (if p = [] then ''.''
      else
        (let rooted = (hd p = CHR ''/'');
             out = (if rooted then clean_loop rooted (tl p) ''/'' 1
                    else clean_loop rooted p [] 0)
         in if length out = 0 then ''.'' else out))"

text \<open>
  The invariant of the loop of \<open>Clean\<close>: the stopping index lies inside the buffer
  and is not preceded by a separator (at a rooted path it is 1, after the leading
  separator); no two separators are adjacent; and the buffer ends with a separator
  only when it is the root.
\<close>

definition clean_inv :: "bool \<Rightarrow> string \<Rightarrow> nat \<Rightarrow> bool" where
  "clean_inv rooted out dotdot \<longleftrightarrow>
     dotdot \<le> length out
     \<and> (rooted \<longrightarrow> dotdot = 1 \<and> take 1 out = ''/'')
     \<and> (\<not> rooted \<longrightarrow> dotdot = 0 \<or> (0 < dotdot \<and> out ! (dotdot - 1) \<noteq> CHR ''/''))
     \<and> (\<forall>i. Suc i < length out \<longrightarrow> out ! i = CHR ''/'' \<longrightarrow> out ! Suc i \<noteq> CHR ''/'')
     \<and> (out \<noteq> [] \<longrightarrow> last out = CHR ''/'' \<longrightarrow> rooted \<and> length out = 1)"

text \<open>\<^verbatim>\<open>path.Join\<close>.\<close>

definition join_step :: "string \<Rightarrow> string \<Rightarrow> string" where
  "join_step buf e =
     (if length buf > 0 \<or> e \<noteq> [] then (if length buf > 0 then buf @ ''/'' else buf) @ e
      else buf)"

definition path_Join :: "string list \<Rightarrow> string" where
  "path_Join elem =
     (if sum_list (map length elem) = 0 then []
      else Clean (foldl join_step [] elem))"

section \<open>Standard library: the collaborators taken as parameters\<close>

text \<open>
  URL parsing and printing, request construction, header-key canonicalisation, query
  parsing and escaping, and the network round trip belong to \<^verbatim>\<open>net/url\<close> and
  \<^verbatim>\<open>net/http\<close>. They are parameters of the dispatch functions; every general theorem
  below holds for all of them. \<open>url_Parse\<close> returns \<open>None\<close> where Go returns
  \<^verbatim>\<open>(nil, err)\<close>, which is what \<^verbatim>\<open>url.Parse\<close> does on every error.
  \<open>client_Do req t\<close> is the round trip \<^verbatim>\<open>client.Do(req)\<close> started at time \<open>t\<close>:
  its answer and the time at which it returns.
\<close>

record env =
  url_Parse :: "string \<Rightarrow> URL option"
  url_String :: "URL \<Rightarrow> string"
  http_NewRequestWithContext :: "Context \<Rightarrow> string \<Rightarrow> string \<Rightarrow> bytes \<Rightarrow> error + http_Request"
  CanonicalMIMEHeaderKey :: "string \<Rightarrow> string"
  url_ParseQuery :: "string \<Rightarrow> Values"
  url_QueryEscape :: "string \<Rightarrow> string"
  client_Do :: "http_Request \<Rightarrow> int \<Rightarrow> (error + Response) \<times> int"

text \<open>\<^verbatim>\<open>func (h Header) Set(key, value string)\<close>\<close>

definition Header_Set :: "env \<Rightarrow> Header \<Rightarrow> string \<Rightarrow> string \<Rightarrow> Header" where
  "Header_Set e h key value = AList.update (CanonicalMIMEHeaderKey e key) [value] h"

text \<open>\<^verbatim>\<open>func (u *URL) Query() Values\<close>: parses \<^verbatim>\<open>RawQuery\<close>, dropping the error.\<close>

definition URL_Query :: "env \<Rightarrow> URL \<Rightarrow> Values" where
  "URL_Query e u = url_ParseQuery e (url_RawQuery u)"

text \<open>\<^verbatim>\<open>v[key]\<close> on a \<^verbatim>\<open>url.Values\<close>: nil (no values) for a missing key.\<close>

definition Values_index :: "Values \<Rightarrow> string \<Rightarrow> string list" where
  "Values_index q key = (case map_of q key of None \<Rightarrow> [] | Some vs \<Rightarrow> vs)"

text \<open>\<^verbatim>\<open>func (v Values) Add(key, value string)\<close>\<close>

definition Values_Add :: "Values \<Rightarrow> string \<Rightarrow> string \<Rightarrow> Values" where
  "Values_Add q key value = AList.update key (Values_index q key @ [value]) q"

text \<open>\<^verbatim>\<open>func (v Values) Encode() string\<close>: keys in sorted order.\<close>

definition encode_key :: "env \<Rightarrow> Values \<Rightarrow> string \<Rightarrow> string \<Rightarrow> string" where
  "encode_key e q buf k =
     foldl (\<lambda>buf v. (if length buf > 0 then buf @ ''&'' else buf)
                       @ url_QueryEscape e k @ ''='' @ url_QueryEscape e v)
       buf (Values_index q k)"

definition Values_Encode :: "env \<Rightarrow> Values \<Rightarrow> string" where
  "Values_Encode e q = foldl (encode_key e q) [] (sort (remdups (map fst q)))"

text \<open>\<^verbatim>\<open>io.ReadAll\<close> on a response body: the bytes read and the error that ended them.\<close>

definition io_ReadAll :: "body_stream \<Rightarrow> bytes \<times> error option" where
  "io_ReadAll b = (stream_data b, stream_err b)"

text \<open>
  \<^verbatim>\<open>context.WithDeadline\<close> and \<^verbatim>\<open>context.WithTimeout\<close>; \<open>now\<close> is the value of
  \<^verbatim>\<open>time.Now()\<close> at the call.
\<close>

fun ctx_Deadline :: "Context \<Rightarrow> int option" where
  "ctx_Deadline Background = None"
| "ctx_Deadline (WithCancel parent) = ctx_Deadline parent"
| "ctx_Deadline (WithDeadline parent d) = Some d"

definition context_WithDeadline :: "Context \<Rightarrow> int \<Rightarrow> Context" where
  "context_WithDeadline parent d =
     (case ctx_Deadline parent of
        Some cur \<Rightarrow> (if cur < d then WithCancel parent else WithDeadline parent d)
      | None \<Rightarrow> WithDeadline parent d)"

definition context_WithTimeout :: "Context \<Rightarrow> int \<Rightarrow> int \<Rightarrow> Context" where
  "context_WithTimeout parent timeout now = context_WithDeadline parent (now + timeout)"

text \<open>A deferred call runs when the surrounding function returns or panics.\<close>

definition emit :: "event \<Rightarrow> state \<Rightarrow> state" where
  "emit ev s = s\<lparr>events := events s @ [ev]\<rparr>"

definition deferred :: "event \<Rightarrow> 'a \<times> state \<Rightarrow> 'a \<times> state" where
  "deferred ev res = (fst res, emit ev (snd res))"

section \<open>Dispatch\<close>

text \<open>
  Lines 133 to 138 of \<^verbatim>\<open>SendWithCtx\<close>: the URL handed to request construction.
  The parse error is discarded; the pointer is then dereferenced.
\<close>

definition api_URL :: "env \<Rightarrow> Request \<Rightarrow> URL outcome" where
  "api_URL e r =
     (case url_Parse e (baseURL r) of
        None \<Rightarrow> Panic NilPointerDereference
      | Some apiURL \<Rightarrow>
          (let apiURL1 = apiURL\<lparr>url_Path := path_Join [url_Path apiURL, Path r]\<rparr>
           in Return (if HasSuffix (Path r) ''/''
                      then apiURL1\<lparr>url_Path := url_Path apiURL1 @ ''/''\<rparr>
                      else apiURL1)))"

text \<open>Lines 149 to 151: \<^verbatim>\<open>for k, v := range r.Headers { req.Header.Set(k, v) }\<close>\<close>

definition set_headers :: "env \<Rightarrow> http_Request \<Rightarrow> gomap \<Rightarrow> http_Request" where
  "set_headers e req kvs =
     foldl (\<lambda>req (k, v). req\<lparr>req_Header := Header_Set e (req_Header req) k v\<rparr>) req kvs"

text \<open>Lines 155 to 157: \<^verbatim>\<open>for k, v := range r.Query { q.Add(k, v) }\<close>\<close>

definition add_query :: "Values \<Rightarrow> gomap \<Rightarrow> Values" where
  "add_query q kvs = foldl (\<lambda>q (k, v). Values_Add q k v) q kvs"

text \<open>
  Lines 149 to 159: the headers are set, the query entries are added to the query
  that the request URL already has, and the whole query is encoded again.
\<close>

definition finish_request ::
  "env \<Rightarrow> http_Request \<Rightarrow> Request \<Rightarrow> state \<Rightarrow> http_Request \<times> state" where
  "finish_request e req r s =
     (let req1 = set_headers e req (map_range (Headers r) s);
          s1 = after_range s;
          q = add_query (URL_Query e (req_URL req1)) (map_range (Query r) s1);
          s2 = after_range s1
      in (req1\<lparr>req_URL := (req_URL req1)\<lparr>url_RawQuery := Values_Encode e q\<rparr>\<rparr>, s2))"

text \<open>Lines 161 to 167: \<^verbatim>\<open>res, err := client.Do(req)\<close> and the two returns.\<close>

definition do_request ::
  "env \<Rightarrow> http_Request \<Rightarrow> state \<Rightarrow> (Response option \<times> error option) outcome \<times> state" where
  "do_request e req s =
     (let s1 = emit (EvDo req) (s\<lparr>clock := snd (client_Do e req (clock s))\<rparr>)
      in case fst (client_Do e req (clock s)) of
           Inl err \<Rightarrow> (Return (None, Some err), s1)
         | Inr res \<Rightarrow> (Return (Some res, None), s1))"

text \<open>\<^verbatim>\<open>func (r *Request) SendWithCtx(ctx context.Context) (*http.Response, error)\<close>\<close>

definition SendWithCtx ::
  "env \<Rightarrow> Context \<Rightarrow> Request \<Rightarrow> state \<Rightarrow> (Response option \<times> error option) outcome \<times> state" where
  "SendWithCtx e ctx r s =
     (case api_URL e r of
        Panic p \<Rightarrow> (Panic p, s)
      | Return apiURL \<Rightarrow>
          (case http_NewRequestWithContext e ctx (Method r) (url_String e apiURL) (Body r) of
             Inl err \<Rightarrow> (Return (None, Some err), s)
           | Inr req \<Rightarrow>
               do_request e (fst (finish_request e req r s)) (snd (finish_request e req r s))))"

text \<open>\<^verbatim>\<open>func (r *Request) Send() (*http.Response, error)\<close>\<close>

definition Send ::
  "env \<Rightarrow> Request \<Rightarrow> state \<Rightarrow> (Response option \<times> error option) outcome \<times> state" where
  "Send e r s =
     (let ctx = context_WithTimeout Background (Timeout r) (clock s)
      in deferred (EvCancel ctx) (SendWithCtx e ctx r s))"

text \<open>
  \<^verbatim>\<open>func SendWithJSONResponse[T any](r *Request) (T, *http.Response, error)\<close>.
  \<open>zero\<close> is the zero value of \<open>T\<close>; \<open>json_Unmarshal body j\<close> is
  \<^verbatim>\<open>json.Unmarshal(body, &j)\<close>: the value it leaves in \<open>j\<close> and its error.
\<close>

definition SendWithJSONResponse ::
  "env \<Rightarrow> 't \<Rightarrow> (bytes \<Rightarrow> 't \<Rightarrow> 't \<times> error option) \<Rightarrow> Request \<Rightarrow> state
     \<Rightarrow> ('t \<times> Response option \<times> error option) outcome \<times> state" where
  "SendWithJSONResponse e zero json_Unmarshal r s =
     (case Send e r s of
        (Panic p, s1) \<Rightarrow> (Panic p, s1)
      | (Return (res, err), s1) \<Rightarrow>
          (let j = zero
           in if err \<noteq> None then (Return (j, res, err), s1)
              else
                (case res of
                   None \<Rightarrow> (Panic NilPointerDereference, s1)
                 | Some resp \<Rightarrow>
                     (let (body, err1) = io_ReadAll (resp_Body resp);
                          s2 = emit (EvReadAll (stream_id (resp_Body resp))) s1
                      in deferred (EvClose (stream_id (resp_Body resp)))
                           (if err1 \<noteq> None then (Return (j, res, err1), s2)
                            else
                              (let (j1, err2) = json_Unmarshal body j;
                                   s3 = emit (EvUnmarshal body) s2
                               in if err2 \<noteq> None then (Return (j1, res, err2), s3)
                                  else (Return (j1, res, None), s3)))))))"

text \<open>
  Dispatch through a pointer, \<^verbatim>\<open>p.SendWithCtx(ctx)\<close> and \<^verbatim>\<open>p.Send()\<close> for
  \<^verbatim>\<open>p *Request\<close>: the struct is read where the pointer points.
\<close>

definition SendWithCtx_at ::
  "env \<Rightarrow> Context \<Rightarrow> addr \<Rightarrow> state \<Rightarrow> (Response option \<times> error option) outcome \<times> state" where
  "SendWithCtx_at e ctx p s = SendWithCtx e ctx (requests s p) s"

definition Send_at ::
  "env \<Rightarrow> addr \<Rightarrow> state \<Rightarrow> (Response option \<times> error option) outcome \<times> state" where
  "Send_at e p s = Send e (requests s p) s"

text \<open>
  The setters of the scalar fields through a pointer, \<^verbatim>\<open>p.SetTimeout(d)\<close> and
  \<^verbatim>\<open>p.SetBody(body)\<close>: they write the struct where the pointer points.
\<close>

definition SetTimeout_at :: "addr \<Rightarrow> int \<Rightarrow> state \<Rightarrow> state" where
  "SetTimeout_at p d s = s\<lparr>requests := (requests s)(p := SetTimeout (requests s p) d)\<rparr>"

definition SetBody_at :: "addr \<Rightarrow> bytes \<Rightarrow> state \<Rightarrow> state" where
  "SetBody_at p body s = s\<lparr>requests := (requests s)(p := SetBody (requests s p) body)\<rparr>"

section \<open>Standard library: an executable fragment of net/url and net/http\<close>

text \<open>
  For runs on concrete inputs the collaborators are instantiated by the definitions of
  this section, written after the Go sources. They cover URLs without user
  information, IPv6 literals, escaped hosts and fragments; on those the parser answers
  \<open>Unmodelled\<close>. \<open>Rejected\<close> is an error return of the Go function.
\<close>

datatype 'a parsed = Ok 'a | Rejected error | Unmodelled

datatype encoding = encodePath | encodeHost | encodeQueryComponent

definition is_digit :: "char \<Rightarrow> bool" where
  "is_digit c = (CHR ''0'' \<le> c \<and> c \<le> CHR ''9'')"

definition is_lower :: "char \<Rightarrow> bool" where
  "is_lower c = (CHR ''a'' \<le> c \<and> c \<le> CHR ''z'')"

definition is_upper :: "char \<Rightarrow> bool" where
  "is_upper c = (CHR ''A'' \<le> c \<and> c \<le> CHR ''Z'')"

definition is_alnum :: "char \<Rightarrow> bool" where
  "is_alnum c = (is_lower c \<or> is_upper c \<or> is_digit c)"

definition to_lower :: "char \<Rightarrow> char" where
  "to_lower c = (if is_upper c then char_of (of_char c + (32::nat)) else c)"

definition to_upper :: "char \<Rightarrow> char" where
  "to_upper c = (if is_lower c then char_of (of_char c - (32::nat)) else c)"

definition ishex :: "char \<Rightarrow> bool" where
  "ishex c = (is_digit c \<or> (CHR ''a'' \<le> c \<and> c \<le> CHR ''f'') \<or> (CHR ''A'' \<le> c \<and> c \<le> CHR ''F''))"

definition unhex :: "char \<Rightarrow> nat" where
  "unhex c =
     (if is_digit c then of_char c - 48
      else if CHR ''a'' \<le> c \<and> c \<le> CHR ''f'' then of_char c - 97 + 10
      else if CHR ''A'' \<le> c \<and> c \<le> CHR ''F'' then of_char c - 65 + 10
      else 0)"

definition upperhex :: string where
  "upperhex = ''0123456789ABCDEF''"

text \<open>\<^verbatim>\<open>shouldEscape\<close>, \<^verbatim>\<open>escape\<close> and \<^verbatim>\<open>unescape\<close> of net/url.\<close>

definition shouldEscape :: "char \<Rightarrow> encoding \<Rightarrow> bool" where
  "shouldEscape c mode =
     (if is_alnum c then False
      else if mode = encodeHost \<and> (c \<in> set ''!$&'()*+,;=:[]<>'' \<or> c = CHR 0x22) then False
      else if c \<in> set ''-_.~'' then False
      else if c \<in> set ''$&+,/:;=?@'' then
        (case mode of
           encodePath \<Rightarrow> c = CHR ''?''
         | encodeQueryComponent \<Rightarrow> True
         | encodeHost \<Rightarrow> True)
      else True)"

definition escape_byte :: "encoding \<Rightarrow> char \<Rightarrow> string" where
  "escape_byte mode c =
     (if shouldEscape c mode then
        (if c = CHR '' '' \<and> mode = encodeQueryComponent then ''+''
         else [CHR ''%'', upperhex ! (of_char c div 16), upperhex ! (of_char c mod 16)])
      else [c])"

definition escape :: "string \<Rightarrow> encoding \<Rightarrow> string" where
  "escape s mode = concat (map (escape_byte mode) s)"

fun unescape :: "encoding \<Rightarrow> string \<Rightarrow> string option" where
  "unescape mode [] = Some []"
| "unescape mode (c # cs) =
     (if c = CHR ''%'' then
        (case cs of
           a # b # rest \<Rightarrow>
             (if ishex a \<and> ishex b
              then map_option (Cons (char_of (16 * unhex a + unhex b))) (unescape mode rest)
              else None)
         | _ \<Rightarrow> None)
      else if c = CHR ''+'' \<and> mode = encodeQueryComponent then
        map_option (Cons CHR '' '') (unescape mode cs)
      else map_option (Cons c) (unescape mode cs))"

text \<open>\<^verbatim>\<open>strings.Cut\<close> and \<^verbatim>\<open>strings.HasPrefix\<close> for a one-byte separator.\<close>

definition Cut :: "string \<Rightarrow> char \<Rightarrow> string \<times> string" where
  "Cut s sep = (takeWhile (\<lambda>c. c \<noteq> sep) s, drop 1 (dropWhile (\<lambda>c. c \<noteq> sep) s))"

definition HasPrefix :: "string \<Rightarrow> string \<Rightarrow> bool" where
  "HasPrefix s pre = (take (length pre) s = pre)"

definition stringContainsCTLByte :: "string \<Rightarrow> bool" where
  "stringContainsCTLByte s = list_ex (\<lambda>c. (of_char c :: nat) < 32 \<or> (of_char c :: nat) = 127) s"

text \<open>\<^verbatim>\<open>getScheme\<close>: \<open>pre\<close> is the prefix already scanned (\<open>i = 0\<close> iff it is empty).\<close>

fun getScheme_loop :: "string \<Rightarrow> string \<Rightarrow> string \<Rightarrow> (string \<times> string) parsed" where
  "getScheme_loop rawURL pre [] = Ok ([], rawURL)"
| "getScheme_loop rawURL pre (c # cs) =
     (if is_lower c \<or> is_upper c then getScheme_loop rawURL (pre @ [c]) cs
      else if is_digit c \<or> c = CHR ''+'' \<or> c = CHR ''-'' \<or> c = CHR ''.'' then
        (if pre = [] then Ok ([], rawURL) else getScheme_loop rawURL (pre @ [c]) cs)
      else if c = CHR '':'' then
        (if pre = [] then Rejected ''missing protocol scheme'' else Ok (pre, cs))
      else Ok ([], rawURL))"

definition getScheme :: "string \<Rightarrow> (string \<times> string) parsed" where
  "getScheme rawURL = getScheme_loop rawURL [] rawURL"

text \<open>\<^verbatim>\<open>validOptionalPort\<close> and \<^verbatim>\<open>parseHost\<close>, \<^verbatim>\<open>parseAuthority\<close> without user information.\<close>

definition validOptionalPort :: "string \<Rightarrow> bool" where
  "validOptionalPort port =
     (case port of
        [] \<Rightarrow> True
      | c # ds \<Rightarrow> c = CHR '':'' \<and> list_all is_digit ds)"

definition last_colon_suffix :: "string \<Rightarrow> string" where
  "last_colon_suffix host = CHR '':'' # rev (takeWhile (\<lambda>c. c \<noteq> CHR '':'') (rev host))"

definition parseHost :: "string \<Rightarrow> string parsed" where
  "parseHost host =
     (if HasPrefix host ''['' \<or> CHR ''%'' \<in> set host then Unmodelled
      else if CHR '':'' \<in> set host \<and> \<not> validOptionalPort (last_colon_suffix host) then
        Rejected ''invalid port after host''
      else if list_ex (\<lambda>c. (of_char c :: nat) < 128 \<and> shouldEscape c encodeHost) host then
        Rejected ''invalid character in host name''
      else Ok host)"

definition parseAuthority :: "string \<Rightarrow> string parsed" where
  "parseAuthority authority =
     (if CHR ''@'' \<in> set authority then Unmodelled else parseHost authority)"

definition empty_URL :: URL where
  "empty_URL = \<lparr>url_Scheme = [], url_Opaque = [], url_Host = [], url_Path = [],
                 url_RawPath = [], url_OmitHost = False, url_ForceQuery = False,
                 url_RawQuery = [], url_Fragment = []\<rparr>"

text \<open>\<^verbatim>\<open>func (u *URL) setPath(p string) error\<close>\<close>

definition setPath :: "URL \<Rightarrow> string \<Rightarrow> URL parsed" where
  "setPath u p =
     (case unescape encodePath p of
        None \<Rightarrow> Rejected ''invalid URL escape''
      | Some path \<Rightarrow>
          Ok (u\<lparr>url_Path := path,
                url_RawPath := (if p = escape path encodePath then [] else p)\<rparr>))"

text \<open>\<^verbatim>\<open>func parse(rawURL string, viaRequest bool)\<close> with \<^verbatim>\<open>viaRequest = false\<close>.\<close>

definition parse_url :: "string \<Rightarrow> URL parsed" where
  "parse_url rawURL =
     (if stringContainsCTLByte rawURL then Rejected ''net/url: invalid control character in URL''
      else if rawURL = [CHR 0x2A] then Ok (empty_URL\<lparr>url_Path := [CHR 0x2A]\<rparr>)
      else
        (case getScheme rawURL of
           Rejected err \<Rightarrow> Rejected err
         | Unmodelled \<Rightarrow> Unmodelled
         | Ok (scheme, rest0) \<Rightarrow>
             (let force = (HasSuffix rest0 ''?'' \<and> count_list rest0 CHR ''?'' = 1);
                  rest = (if force then butlast rest0 else fst (Cut rest0 CHR ''?''));
                  rawquery = (if force then [] else snd (Cut rest0 CHR ''?''));
                  u = empty_URL\<lparr>url_Scheme := map to_lower scheme,
                                 url_ForceQuery := force, url_RawQuery := rawquery\<rparr>
              in if \<not> HasPrefix rest ''/'' \<and> url_Scheme u \<noteq> [] then
                   Ok (u\<lparr>url_Opaque := rest\<rparr>)
                 else if \<not> HasPrefix rest ''/'' \<and> CHR '':'' \<in> set (fst (Cut rest CHR ''/'')) then
                   Rejected ''first path segment in URL cannot contain colon''
                 else if (url_Scheme u \<noteq> [] \<or> \<not> HasPrefix rest ''///'') \<and> HasPrefix rest ''//'' then
                   (case parseAuthority (takeWhile (\<lambda>c. c \<noteq> CHR ''/'') (drop 2 rest)) of
                      Rejected err \<Rightarrow> Rejected err
                    | Unmodelled \<Rightarrow> Unmodelled
                    | Ok host \<Rightarrow>
                        setPath (u\<lparr>url_Host := host\<rparr>)
                          (dropWhile (\<lambda>c. c \<noteq> CHR ''/'') (drop 2 rest)))
                 else
                   setPath (u\<lparr>url_OmitHost := (url_Scheme u \<noteq> [] \<and> HasPrefix rest ''/'')\<rparr>) rest)))"

text \<open>\<^verbatim>\<open>func Parse(rawURL string) (*URL, error)\<close>\<close>

definition Parse :: "string \<Rightarrow> URL parsed" where
  "Parse rawURL =
     (case parse_url (fst (Cut rawURL CHR ''#'')) of
        Rejected err \<Rightarrow> Rejected err
      | Unmodelled \<Rightarrow> Unmodelled
      | Ok url \<Rightarrow> (if snd (Cut rawURL CHR ''#'') = [] then Ok url else Unmodelled))"

text \<open>
  The pointer that \<^verbatim>\<open>url.Parse\<close> returns: nil unless parsing succeeded. (On a
  URL outside the fragment the instance also answers nil although Go may accept the
  URL; no run below is on such a URL, and the theorems about a nil result hold for
  every parser.)
\<close>

definition Parse_ptr :: "string \<Rightarrow> URL option" where
  "Parse_ptr rawURL = (case Parse rawURL of Ok url \<Rightarrow> Some url | _ \<Rightarrow> None)"

text \<open>\<^verbatim>\<open>validEncoded\<close>, \<^verbatim>\<open>EscapedPath\<close> and \<^verbatim>\<open>String\<close> of \<^verbatim>\<open>*URL\<close>.\<close>

definition validEncoded :: "string \<Rightarrow> encoding \<Rightarrow> bool" where
  "validEncoded s mode =
     list_all (\<lambda>c. c \<in> set ''!$&'()*+,;=:@[]%'' \<or> \<not> shouldEscape c mode) s"

definition EscapedPath :: "URL \<Rightarrow> string" where
  "EscapedPath u =
     (if url_RawPath u \<noteq> [] \<and> validEncoded (url_RawPath u) encodePath
         \<and> unescape encodePath (url_RawPath u) = Some (url_Path u)
      then url_RawPath u
      else if url_Path u = [CHR 0x2A] then [CHR 0x2A]
      else escape (url_Path u) encodePath)"

definition URL_String :: "URL \<Rightarrow> string" where
  "URL_String u =
     (let buf1 = (if url_Scheme u \<noteq> [] then url_Scheme u @ '':'' else []);
          buf2 =
            (if url_Opaque u \<noteq> [] then buf1 @ url_Opaque u
             else
               (let buf3 =
                      (if (url_Scheme u \<noteq> [] \<or> url_Host u \<noteq> [])
                          \<and> \<not> (url_OmitHost u \<and> url_Host u = [])
                       then buf1 @ (if url_Host u \<noteq> [] \<or> url_Path u \<noteq> [] then ''//'' else [])
                              @ (if url_Host u \<noteq> [] then escape (url_Host u) encodeHost else [])
                       else buf1);
                    path = EscapedPath u;
                    buf4 = (if path \<noteq> [] \<and> hd path \<noteq> CHR ''/'' \<and> url_Host u \<noteq> []
                            then buf3 @ ''/'' else buf3);
                    buf5 = (if length buf4 = 0 \<and> CHR '':'' \<in> set (fst (Cut path CHR ''/''))
                            then buf4 @ ''./'' else buf4)
                in buf5 @ path));
          buf6 = (if url_ForceQuery u \<or> url_RawQuery u \<noteq> []
                  then buf2 @ ''?'' @ url_RawQuery u else buf2)
      in if url_Fragment u \<noteq> [] then buf6 @ ''#'' @ escape (url_Fragment u) encodePath else buf6)"

text \<open>\<^verbatim>\<open>url.ParseQuery\<close> with the error dropped, as \<^verbatim>\<open>(*URL).Query\<close> does.\<close>

definition parse_pair :: "Values \<Rightarrow> string \<Rightarrow> Values" where
  "parse_pair m key =
     (if CHR '';'' \<in> set key \<or> key = [] then m
      else
        (case unescape encodeQueryComponent (fst (Cut key CHR ''='')) of
           None \<Rightarrow> m
         | Some k \<Rightarrow>
             (case unescape encodeQueryComponent (snd (Cut key CHR ''='')) of
                None \<Rightarrow> m
              | Some v \<Rightarrow> Values_Add m k v)))"

function split_amp :: "string \<Rightarrow> string list" where
  "split_amp query =
     (if query = [] then []
      else fst (Cut query CHR ''&'') # split_amp (snd (Cut query CHR ''&'')))"
  by pat_completeness auto
termination
proof (relation "measure length")
  show "wf (measure length)" by simp
next
  fix query :: string
  assume "query \<noteq> []"
  then obtain c cs where q: "query = c # cs" by (cases query) auto
  have "length (dropWhile (\<lambda>x. x \<noteq> CHR ''&'') query) \<le> length query"
    by (rule length_dropWhile_le)
  then show "(snd (Cut query CHR ''&''), query) \<in> measure length"
    using q by (auto simp: Cut_def)
qed

declare split_amp.simps [simp del]

definition ParseQuery :: "string \<Rightarrow> Values" where
  "ParseQuery query = foldl parse_pair [] (split_amp query)"

text \<open>\<^verbatim>\<open>url.QueryEscape\<close>\<close>

definition QueryEscape :: "string \<Rightarrow> string" where
  "QueryEscape s = escape s encodeQueryComponent"

text \<open>Header field names: \<^verbatim>\<open>textproto.CanonicalMIMEHeaderKey\<close>.\<close>

definition is_token_char :: "char \<Rightarrow> bool" where
  "is_token_char c = (is_alnum c \<or> c \<in> set ''!#$%&'*+-.^_|~'' \<or> c = CHR 0x60)"

fun canonical_bytes :: "bool \<Rightarrow> string \<Rightarrow> string" where
  "canonical_bytes upper [] = []"
| "canonical_bytes upper (c # cs) =
     (if upper then to_upper c else to_lower c) # canonical_bytes (c = CHR ''-'') cs"

definition CanonicalHeaderKey :: "string \<Rightarrow> string" where
  "CanonicalHeaderKey s = (if list_all is_token_char s then canonical_bytes True s else s)"

text \<open>\<^verbatim>\<open>http.NewRequestWithContext\<close>\<close>

definition removeEmptyPort :: "string \<Rightarrow> string" where
  "removeEmptyPort host = (if host \<noteq> [] \<and> last host = CHR '':'' then butlast host else host)"

definition NewRequestWithContext :: "Context \<Rightarrow> string \<Rightarrow> string \<Rightarrow> bytes \<Rightarrow> error + http_Request" where
  "NewRequestWithContext ctx method0 url body =
     (let method = (if method0 = [] then ''GET'' else method0)
      in if \<not> list_all is_token_char method then Inl ''net/http: invalid method''
         else
           (case Parse url of
              Ok u \<Rightarrow>
                Inr \<lparr>req_ctx = ctx, req_Method = method,
                     req_URL = u\<lparr>url_Host := removeEmptyPort (url_Host u)\<rparr>,
                     req_Header = [], req_Body = body\<rparr>
            | _ \<Rightarrow> Inl ''parse error''))"

text \<open>The instance: the network answer \<open>net\<close> is the only thing left open.\<close>

definition go_env :: "(http_Request \<Rightarrow> int \<Rightarrow> (error + Response) \<times> int) \<Rightarrow> env" where
  "go_env net =
     \<lparr>url_Parse = Parse_ptr, url_String = URL_String,
      http_NewRequestWithContext = NewRequestWithContext,
      CanonicalMIMEHeaderKey = CanonicalHeaderKey,
      url_ParseQuery = ParseQuery, url_QueryEscape = QueryEscape,
      client_Do = net\<rparr>"

text \<open>
  Notions for the proofs about the fragment: the characters of a scheme; the two
  parts into which \<^verbatim>\<open>parse\<close> cuts what follows the scheme, the raw query and the
  rest; and the part that \<^verbatim>\<open>String\<close> appends for the query.
\<close>

definition sch :: "char \<Rightarrow> bool" where
  "sch c = (is_lower c \<or> is_upper c \<or> is_digit c \<or> c = CHR ''+'' \<or> c = CHR ''-'' \<or> c = CHR ''.'')"

definition query_of :: "string \<Rightarrow> string" where
  "query_of rest0 =
     (if HasSuffix rest0 ''?'' \<and> count_list rest0 CHR ''?'' = 1 then []
      else snd (Cut rest0 CHR ''?''))"

definition rest_of :: "string \<Rightarrow> string" where
  "rest_of rest0 =
     (if HasSuffix rest0 ''?'' \<and> count_list rest0 CHR ''?'' = 1 then butlast rest0
      else fst (Cut rest0 CHR ''?''))"

definition query_part :: "URL \<Rightarrow> string" where
  "query_part u = (if url_ForceQuery u \<or> url_RawQuery u \<noteq> [] then ''?'' @ url_RawQuery u else [])"

section \<open>Standard library: an executable fragment of encoding/json\<close>

text \<open>
  The codec for Go struct types whose fields all have type \<^verbatim>\<open>int\<close>, with alphanumeric
  field names and tags. A value of such a type is the list of its field values. The
  JSON texts covered are integers, escape-free strings and flat objects of these;
  other valid JSON is \<open>Unmodelled\<close>.
\<close>

record field =
  field_name :: string
  field_tag :: string

type_synonym struct_type = "field list"
type_synonym struct_value = "int list"

datatype token = TLBrace | TRBrace | TColon | TComma | TString string | TNumber int
  | TBad | TUnmodelled

datatype jvalue = JNumber int | JString string

datatype jdoc = JScalar jvalue | JObject "(string \<times> jvalue) list"

definition dq :: char where
  "dq = CHR 0x22"

definition quote :: "string \<Rightarrow> string" where
  "quote s = dq # s @ [dq]"

definition int_to_dec :: "int \<Rightarrow> string" where
  "int_to_dec i = Sprintf_v (AInt i)"

definition dec_value :: "string \<Rightarrow> int" where
  "dec_value ds = foldl (\<lambda>n d. 10 * n + (int (of_char d) - 48)) 0 ds"

definition is_space :: "char \<Rightarrow> bool" where
  "is_space c = (c = CHR '' '' \<or> c = CHR 0x09 \<or> c = CHR 0x0A \<or> c = CHR 0x0D)"

function tokenize :: "string \<Rightarrow> token list" where
  "tokenize [] = []"
| "tokenize (c # cs) =
     (if is_space c then tokenize cs
      else if c = CHR ''{'' then TLBrace # tokenize cs
      else if c = CHR ''}'' then TRBrace # tokenize cs
      else if c = CHR '':'' then TColon # tokenize cs
      else if c = CHR '','' then TComma # tokenize cs
      else if c = dq then
        (if CHR 0x5C \<in> set (takeWhile (\<lambda>x. x \<noteq> dq) cs) then [TUnmodelled]
         else if dropWhile (\<lambda>x. x \<noteq> dq) cs = []
                 \<or> list_ex (\<lambda>x. (of_char x :: nat) < 32) (takeWhile (\<lambda>x. x \<noteq> dq) cs)
         then [TBad]
         else TString (takeWhile (\<lambda>x. x \<noteq> dq) cs) # tokenize (tl (dropWhile (\<lambda>x. x \<noteq> dq) cs)))
      else if c = CHR ''-'' then
        (if takeWhile is_digit cs = []
            \<or> (length (takeWhile is_digit cs) > 1 \<and> hd cs = CHR ''0'') then [TBad]
         else if dropWhile is_digit cs \<noteq> [] \<and> hd (dropWhile is_digit cs) \<in> set ''.eE''
         then [TUnmodelled]
         else TNumber (- dec_value (takeWhile is_digit cs)) # tokenize (dropWhile is_digit cs))
      else if is_digit c then
        (if c = CHR ''0'' \<and> takeWhile is_digit cs \<noteq> [] then [TBad]
         else if dropWhile is_digit cs \<noteq> [] \<and> hd (dropWhile is_digit cs) \<in> set ''.eE''
         then [TUnmodelled]
         else TNumber (dec_value (c # takeWhile is_digit cs)) # tokenize (dropWhile is_digit cs))
      else [TUnmodelled])"
  by pat_completeness auto
termination
proof (relation "measure length")
  fix c :: char and cs :: string
  have d: "length (dropWhile (\<lambda>x. x \<noteq> dq) cs) \<le> length cs"
    by (rule length_dropWhile_le)
  show "(tl (dropWhile (\<lambda>x. x \<noteq> dq) cs), c # cs) \<in> measure length"
    using d by simp
  have "length (dropWhile is_digit cs) \<le> length cs"
    by (rule length_dropWhile_le)
  then show "(dropWhile is_digit cs, c # cs) \<in> measure length"
    by simp
  then show "(dropWhile is_digit cs, c # cs) \<in> measure length" .
qed simp_all

declare tokenize.simps [simp del]

fun tok_value :: "token \<Rightarrow> jvalue option" where
  "tok_value (TNumber n) = Some (JNumber n)"
| "tok_value (TString s) = Some (JString s)"
| "tok_value _ = None"

fun parse_members :: "token list \<Rightarrow> (string \<times> jvalue) list option" where
  "parse_members (TString k # TColon # v # rest) =
     (case tok_value v of
        None \<Rightarrow> None
      | Some jv \<Rightarrow>
          (case rest of
             [TRBrace] \<Rightarrow> Some [(k, jv)]
           | TComma # rest1 \<Rightarrow> map_option (Cons (k, jv)) (parse_members rest1)
           | _ \<Rightarrow> None))"
| "parse_members _ = None"

definition parse_json :: "bytes \<Rightarrow> jdoc parsed" where
  "parse_json data =
     (let ts = tokenize data
      in if TUnmodelled \<in> set ts \<or> count_list ts TLBrace > 1 then Unmodelled
         else if TBad \<in> set ts then Rejected ''invalid character''
         else
           (case ts of
              [TNumber n] \<Rightarrow> Ok (JScalar (JNumber n))
            | [TString s] \<Rightarrow> Ok (JScalar (JString s))
            | [TLBrace, TRBrace] \<Rightarrow> Ok (JObject [])
            | TLBrace # rest \<Rightarrow>
                (case parse_members rest of
                   None \<Rightarrow> Rejected ''invalid character''
                 | Some ms \<Rightarrow> Ok (JObject ms))
            | _ \<Rightarrow> Rejected ''unexpected end of JSON input''))"

text \<open>Only exported fields take part; the key is the tag, or the field name without one.\<close>

definition exported :: "field \<Rightarrow> bool" where
  "exported f = (field_name f \<noteq> [] \<and> is_upper (hd (field_name f)))"

definition field_key :: "field \<Rightarrow> string" where
  "field_key f = (if field_tag f \<noteq> [] then field_tag f else field_name f)"

text \<open>\<^verbatim>\<open>json.Marshal\<close> of a struct value: never an error on these types.\<close>

definition marshal_members :: "struct_type \<Rightarrow> struct_value \<Rightarrow> string list" where
  "marshal_members T v =
     map (\<lambda>(f, x). quote (field_key f) @ '':'' @ int_to_dec x)
       (filter (\<lambda>(f, x). exported f) (zip T v))"

fun join_comma :: "string list \<Rightarrow> string" where
  "join_comma [] = []"
| "join_comma [x] = x"
| "join_comma (x # y # ys) = x @ '','' @ join_comma (y # ys)"

definition Marshal_struct :: "struct_type \<Rightarrow> struct_value \<Rightarrow> error + bytes" where
  "Marshal_struct T v = Inr (''{'' @ join_comma (marshal_members T v) @ ''}'')"

text \<open>
  \<^verbatim>\<open>json.Unmarshal(data, &j)\<close> for \<open>j\<close> of struct type \<open>T\<close>. The text is validated as a
  whole first; then each member is stored into the field it names (an exact match
  is preferred to a case-insensitive one). A member of the wrong JSON type is
  skipped, the first such error is remembered, and decoding goes on. (On a text
  outside the fragment the instance answers with an error of its own although Go
  may accept the text; no run below is on such a text.)
\<close>

definition find_index_of :: "('a \<Rightarrow> bool) \<Rightarrow> 'a list \<Rightarrow> nat option" where
  "find_index_of P xs =
     (if list_ex P xs then Some (length (takeWhile (\<lambda>x. \<not> P x) xs)) else None)"

definition find_field :: "struct_type \<Rightarrow> string \<Rightarrow> nat option" where
  "find_field T k =
     (case find_index_of (\<lambda>f. exported f \<and> field_key f = k) T of
        Some i \<Rightarrow> Some i
      | None \<Rightarrow> find_index_of (\<lambda>f. exported f \<and> map to_lower (field_key f) = map to_lower k) T)"

text \<open>
  The message of an \<^verbatim>\<open>UnmarshalTypeError\<close> for a field of an unnamed struct type
  (the struct name before the dot is empty).
\<close>

definition type_error :: "string \<Rightarrow> string \<Rightarrow> error" where
  "type_error what key =
     ''json: cannot unmarshal '' @ what @ '' into Go struct field .'' @ key @ '' of type int''"

definition store_member ::
  "struct_type \<Rightarrow> struct_value \<times> error option \<Rightarrow> string \<times> jvalue \<Rightarrow> struct_value \<times> error option" where
  "store_member T acc kv =
     (case find_field T (fst kv) of
        None \<Rightarrow> acc
      | Some i \<Rightarrow>
          (case snd kv of
             JNumber n \<Rightarrow>
               (if - (2 ^ 63) \<le> n \<and> n < 2 ^ 63 then ((fst acc)[i := n], snd acc)
                else (fst acc, (if snd acc = None
                                then Some (type_error (''number '' @ int_to_dec n) (field_key (T ! i)))
                                else snd acc)))
           | JString s \<Rightarrow>
               (fst acc, (if snd acc = None
                          then Some (type_error ''string'' (field_key (T ! i)))
                          else snd acc))))"

definition Unmarshal_struct :: "struct_type \<Rightarrow> bytes \<Rightarrow> struct_value \<Rightarrow> struct_value \<times> error option" where
  "Unmarshal_struct T data j =
     (case parse_json data of
        Rejected err \<Rightarrow> (j, Some err)
      | Unmodelled \<Rightarrow> (j, Some ''outside the fragment'')
      | Ok (JScalar x) \<Rightarrow> (j, Some ''json: cannot unmarshal into Go value of struct type'')
      | Ok (JObject ms) \<Rightarrow> foldl (store_member T) (j, None) ms)"

text \<open>The zero value of a struct type.\<close>

definition zero_struct :: "struct_type \<Rightarrow> struct_value" where
  "zero_struct T = map (\<lambda>f. 0) T"

section \<open>Send as the specification words it\<close>

text \<open>
  The specification defines \<open>Send\<close> as the context-taking dispatch run with an internal
  signal whose deadline is the Request's timeout counted from the moment dispatch
  begins, the signal being released when dispatch returns. This definition follows
  those words; \<open>Send\<close> above follows the code.
\<close>

definition Send_spec ::
  "env \<Rightarrow> Request \<Rightarrow> state \<Rightarrow> (Response option \<times> error option) outcome \<times> state" where
  "Send_spec e r s =
     (let signal = WithDeadline Background (clock s + Timeout r);
          res = SendWithCtx e signal r s
      in (fst res, emit (EvCancel signal) (snd res)))"

section \<open>Caller programs and well-formed states\<close>

text \<open>A state in which nothing has happened yet.\<close>

definition zero_Request :: Request where
  "zero_Request = \<lparr>baseURL = [], Method = [], Path = [], Query = None, Body = [],
                    Headers = None, Timeout = 0\<rparr>"

definition init_state :: state where
  "init_state = \<lparr>heap = (\<lambda>a. []), next_addr = 0, requests = (\<lambda>p. zero_Request),
                  events = [], clock = 0, tape = []\<rparr>"

text \<open>
  The client's default-header reference is nil or points to an allocated table with
  unique keys, as every Go map has.
\<close>

definition wf_client :: "Client \<Rightarrow> state \<Rightarrow> bool" where
  "wf_client c s =
     (case DefaultHeaders c of
        None \<Rightarrow> True
      | Some d \<Rightarrow> d < next_addr s \<and> distinct (map fst (heap s d)))"

text \<open>Sequences of calls made by client code: on a Client, and on a Request.\<close>

datatype client_op = OpSetDefaultHeaders "addr option" | OpAddDefaultHeader string go_any

fun do_client_op :: "client_op \<Rightarrow> Client \<Rightarrow> state \<Rightarrow> (Client \<times> state) outcome" where
  "do_client_op (OpSetDefaultHeaders h) c s = Return (SetDefaultHeaders c h, s)"
| "do_client_op (OpAddDefaultHeader key value) c s = AddDefaultHeader c key value s"

fun do_client_ops :: "client_op list \<Rightarrow> Client \<Rightarrow> state \<Rightarrow> (Client \<times> state) outcome" where
  "do_client_ops [] c s = Return (c, s)"
| "do_client_ops (op # ops) c s =
     (case do_client_op op c s of
        Panic p \<Rightarrow> Panic p
      | Return (c1, s1) \<Rightarrow> do_client_ops ops c1 s1)"

fun do_SetHeaders :: "(string \<times> go_any) list \<Rightarrow> Request \<Rightarrow> state \<Rightarrow> state outcome" where
  "do_SetHeaders [] r s = Return s"
| "do_SetHeaders ((key, value) # kvs) r s =
     (case SetHeader r key value s of
        Panic p \<Rightarrow> Panic p
      | Return s1 \<Rightarrow> do_SetHeaders kvs r s1)"

text \<open>
  Calls on a Client and \<open>SetHeader\<close> calls on one Request, in any interleaving, and
  the two kinds of call picked out of such a sequence.
\<close>

datatype call = OnClient client_op | OnRequest string go_any

fun run_calls :: "call list \<Rightarrow> Client \<Rightarrow> Request \<Rightarrow> state \<Rightarrow> (Client \<times> state) outcome" where
  "run_calls [] c r s = Return (c, s)"
| "run_calls (OnClient cop # calls) c r s =
     (case do_client_op cop c s of
        Panic p \<Rightarrow> Panic p
      | Return (c1, s1) \<Rightarrow> run_calls calls c1 r s1)"
| "run_calls (OnRequest key value # calls) c r s =
     (case SetHeader r key value s of
        Panic p \<Rightarrow> Panic p
      | Return s1 \<Rightarrow> run_calls calls c r s1)"

fun client_calls :: "call list \<Rightarrow> client_op list" where
  "client_calls [] = []"
| "client_calls (OnClient cop # calls) = cop # client_calls calls"
| "client_calls (OnRequest key value # calls) = client_calls calls"

fun request_calls :: "call list \<Rightarrow> (string \<times> go_any) list" where
  "request_calls [] = []"
| "request_calls (OnClient cop # calls) = request_calls calls"
| "request_calls (OnRequest key value # calls) = (key, value) # request_calls calls"

text \<open>A client with one default header, in a state where its table is allocated.\<close>

definition example_state :: state where
  "example_state = \<lparr>heap = (\<lambda>a. if a = 0 then [(''Authorization'', ''Bearer t'')] else []),
                     next_addr = 1, requests = (\<lambda>p. zero_Request), events = [], clock = 0,
                     tape = []\<rparr>"

definition example_client :: Client where
  "example_client = \<lparr>BaseURL = ''https://api.example.com'', DefaultHeaders = Some 0\<rparr>"

text \<open>
  A request as client code gets it from \<open>example_client\<close> by
  \<^verbatim>\<open>NewRequest(GET, "/items")\<close> and \<^verbatim>\<open>SetQuery("q", "v1")\<close> and keeps it at
  pointer 0, and a network that answers every request after five milliseconds with
  status 200 and a given body. \<open>example_state1\<close> is the state right after
  \<open>NewRequest\<close>.
\<close>

definition example_request :: Request where
  "example_request = \<lparr>baseURL = ''https://api.example.com'', Method = ''GET'', Path = ''/items'',
                       Query = Some 1, Body = [], Headers = Some 2, Timeout = 10 * Second\<rparr>"

definition example_state1 :: state where
  "example_state1 =
     \<lparr>heap = (\<lambda>a. if a = 0 then [(''Authorization'', ''Bearer t'')]
                   else if a = 2 then [(''Authorization'', ''Bearer t'')]
                   else []),
      next_addr = 3, requests = (\<lambda>p. zero_Request), events = [], clock = 0, tape = []\<rparr>"

definition example_state2 :: state where
  "example_state2 =
     \<lparr>heap = (\<lambda>a. if a = 0 then [(''Authorization'', ''Bearer t'')]
                   else if a = 1 then [(''q'', ''v1'')]
                   else if a = 2 then [(''Authorization'', ''Bearer t'')]
                   else []),
      next_addr = 3, requests = (\<lambda>p. if p = 0 then example_request else zero_Request),
      events = [], clock = 1000, tape = []\<rparr>"

text \<open>
  The same request after \<^verbatim>\<open>SetHeader("x-a", "1")\<close> and \<^verbatim>\<open>SetHeader("X-A", "2")\<close>,
  two names that the canonical form of header keys makes one, in a run where the
  first dispatch visits the headers in table order and the second in the other
  order.
\<close>

definition example_state_two_names :: state where
  "example_state_two_names =
     \<lparr>heap = (\<lambda>a. if a = 1 then [(''q'', ''v1'')]
                   else if a = 2 then [(''x-a'', ''1''), (''X-A'', ''2'')]
                   else []),
      next_addr = 3, requests = (\<lambda>p. if p = 0 then example_request else zero_Request),
      events = [], clock = 1000, tape = [[], [], [1], []]\<rparr>"

definition canned_response :: "bytes \<Rightarrow> Response" where
  "canned_response body =
     \<lparr>StatusCode = 200, resp_Body = \<lparr>stream_id = 7, stream_data = body, stream_err = None\<rparr>\<rparr>"

definition canned_net :: "bytes \<Rightarrow> http_Request \<Rightarrow> int \<Rightarrow> (error + Response) \<times> int" where
  "canned_net body req t = (Inr (canned_response body), t + 5000000)"

text \<open>
  A target type for decoding, \<^verbatim>\<open>struct { A int `json:"a"`; X int `json:"x"` }\<close>, two
  response bodies whose member \<open>x\<close> is a string, and a network that refuses every
  connection.
\<close>

definition struct_AX :: struct_type where
  "struct_AX = [\<lparr>field_name = ''A'', field_tag = ''a''\<rparr>, \<lparr>field_name = ''X'', field_tag = ''x''\<rparr>]"

definition body_x_only :: bytes where
  "body_x_only = ''{'' @ quote ''x'' @ '': '' @ quote ''not-a-number'' @ ''}''"

definition body_a_and_x :: bytes where
  "body_a_and_x = ''{'' @ quote ''a'' @ '': 1, '' @ quote ''x'' @ '': '' @ quote ''not-a-number'' @ ''}''"

definition refusing_net :: "http_Request \<Rightarrow> int \<Rightarrow> (error + Response) \<times> int" where
  "refusing_net req t = (Inl ''dial tcp: connection refused'', t + 1000)"

text \<open>
  Three more requests over the tables of \<open>example_state2\<close>: one whose base URL
  already has a query, one whose \<open>Path\<close> contains a question mark, and one whose
  base URL has a query with a pair that \<^verbatim>\<open>url.ParseQuery\<close> rejects (\<^verbatim>\<open>%zz\<close> is
  no percent escape).
\<close>

definition example_request_q :: Request where
  "example_request_q = example_request\<lparr>baseURL := ''https://api.example.com/v1?q=v0&a=1''\<rparr>"

definition example_request_pq :: Request where
  "example_request_pq = example_request\<lparr>baseURL := ''https://api.example.com/v1?a=1'',
                                          Path := ''/items?b=2''\<rparr>"

definition example_request_zz :: Request where
  "example_request_zz = example_request\<lparr>baseURL := ''https://api.example.com/v1?a=1&b=%zz''\<rparr>"

text \<open>
  Requests with a base URL that \<^verbatim>\<open>url.Parse\<close> rejects (the scheme is missing) and
  with the root path, and a struct type with an unexported field,
  \<^verbatim>\<open>struct { ID int `json:"id"`; token int }\<close>.
\<close>

definition example_request_bad :: Request where
  "example_request_bad = example_request\<lparr>baseURL := ''://api.example.com''\<rparr>"

definition example_request_root :: Request where
  "example_request_root = example_request\<lparr>Path := ''/''\<rparr>"

definition struct_private :: struct_type where
  "struct_private = [\<lparr>field_name = ''ID'', field_tag = ''id''\<rparr>,
                     \<lparr>field_name = ''token'', field_tag = []\<rparr>]"

text \<open>
  A state in which the example request already has a \<^verbatim>\<open>Content-Type\<close> header, the
  JSON texts \<^verbatim>\<open>{"id":7}\<close> and \<^verbatim>\<open>{"a":1,"x":2}\<close>, and an encoder that fails as
  \<^verbatim>\<open>json.Marshal\<close> does on a channel.
\<close>

definition example_state3 :: state where
  "example_state3 =
     example_state2\<lparr>heap := (heap example_state2)
        (2 := [(''Authorization'', ''Bearer t''), (''Content-Type'', ''text/plain'')])\<rparr>"

definition body_id_7 :: bytes where
  "body_id_7 = ''{'' @ quote ''id'' @ '':7}''"

definition body_a1_x2 :: bytes where
  "body_a1_x2 = ''{'' @ quote ''a'' @ '':1,'' @ quote ''x'' @ '':2}''"

definition Marshal_chan :: "'v \<Rightarrow> error + bytes" where
  "Marshal_chan v = Inl ''json: unsupported type: chan int''"

section \<open>The order of range loops\<close>

lemma mset_insert_at:
  "mset (insert_at i x xs) = add_mset x (mset xs)"
proof -
  have "mset (take i xs @ x # drop i xs) = add_mset x (mset (take i xs @ drop i xs))"
    by (simp only: mset_append mset.simps union_mset_add_mset_right)
  then show ?thesis by (simp only: insert_at_def append_take_drop_id)
qed

lemma mset_permute:
  "mset (permute code xs) = mset xs"
  by (induction code xs rule: permute.induct) (simp_all add: mset_insert_at)

lemma permute_Nil [simp]:
  "permute [] xs = xs"
  by (cases xs) simp_all

text \<open>Every order of the entries is the order of some choice.\<close>

lemma permute_any_order:
  "mset ys = mset xs \<Longrightarrow> \<exists>code. permute code xs = ys"
proof (induction xs arbitrary: ys)
  case Nil
  then show ?case by simp
next
  case (Cons x xs)
  then have "x \<in> set ys" by (metis list.set_intros(1) mset_eq_setD)
  then obtain as bs where ys: "ys = as @ x # bs" by (meson split_list)
  then have "mset (as @ bs) = mset xs" using Cons.prems by simp
  from Cons.IH [OF this] obtain code where code: "permute code xs = as @ bs" ..
  have "permute (length as # code) (x # xs) = ys"
    using code ys by (simp add: insert_at_def)
  then show ?case ..
qed

text \<open>A table with unique keys is the same map in whatever order it is visited.\<close>

lemma distinct_keys_permute:
  "distinct (map fst (permute code t)) = distinct (map fst t)"
proof -
  have "mset (map fst (permute code t)) = mset (map fst t)"
    by (simp add: mset_permute)
  then show ?thesis by (rule mset_eq_imp_distinct_iff)
qed

lemma map_of_permute:
  assumes "distinct (map fst t)"
  shows "map_of (permute code t) = map_of t"
proof -
  have "set (permute code t) = set t"
    using mset_permute [of code t] by (rule mset_eq_setD)
  then show ?thesis
    using assms distinct_keys_permute [of code t] by (simp add: map_of_inject_set)
qed

section \<open>Construction of requests\<close>

lemma map_assign_Some:
  "map_assign (Some a) k v s = Return (s\<lparr>heap := (heap s)(a := AList.update k v (heap s a))\<rparr>)"
  by (simp add: map_assign_def)

text \<open>The copying loop writes the request's own table and nothing else.\<close>

lemma copy_headers_frame:
  assumes "Headers r = Some h"
  shows "\<exists>s'. copy_headers r kvs s = Return s' \<and> next_addr s' = next_addr s
            \<and> events s' = events s \<and> clock s' = clock s
            \<and> requests s' = requests s \<and> tape s' = tape s
            \<and> (\<forall>b. b \<noteq> h \<longrightarrow> heap s' b = heap s b)
            \<and> heap s' h = foldl (\<lambda>t (k, v). AList.update k v t) (heap s h) kvs"
  using assms
proof (induction kvs arbitrary: s)
  case Nil
  then show ?case by simp
next
  case (Cons kv kvs)
  obtain k v where kv: "kv = (k, v)" by (cases kv)
  let ?s1 = "s\<lparr>heap := (heap s)(h := AList.update k v (heap s h))\<rparr>"
  have step: "SetHeader r k (AString v) s = Return ?s1"
    using Cons.prems by (simp add: SetHeader_def map_assign_Some Sprintf_v_def)
  from Cons.IH [OF Cons.prems, of ?s1] obtain s' where
    "copy_headers r kvs ?s1 = Return s'" "next_addr s' = next_addr ?s1"
    "events s' = events ?s1" "clock s' = clock ?s1"
    "requests s' = requests ?s1" "tape s' = tape ?s1"
    "\<forall>b. b \<noteq> h \<longrightarrow> heap s' b = heap ?s1 b"
    "heap s' h = foldl (\<lambda>t (k, v). AList.update k v t) (heap ?s1 h) kvs"
    by (elim exE conjE)
  then show ?case using step kv by simp
qed

lemma foldl_update_distinct:
  "distinct (map fst (t @ kvs)) \<Longrightarrow> foldl (\<lambda>t (k, v). AList.update k v t) t kvs = t @ kvs"
proof (induction kvs arbitrary: t)
  case Nil
  then show ?case by simp
next
  case (Cons kv kvs)
  obtain k v where kv: "kv = (k, v)" by (cases kv)
  have "k \<notin> fst ` set t" using Cons.prems kv by auto
  then have u: "AList.update k v t = t @ [(k, v)]"
    by (induction t) auto
  have "distinct (map fst ((t @ [(k, v)]) @ kvs))" using Cons.prems kv by simp
  from Cons.IH [OF this] show ?case using u kv by simp
qed

text \<open>
  What \<open>NewRequest\<close> returns: the two tables are the next two free addresses, every
  older table is untouched, the header table is filled in the order in which the
  loop visits the defaults, and nothing else of the state changes but the choice
  that this loop has used up.
\<close>

lemma NewRequest_result:
  "\<exists>s1. NewRequest c m p s =
          Return (\<lparr>baseURL = BaseURL c, Method = m, Path = p,
                    Query = Some (next_addr s), Body = [],
                    Headers = Some (Suc (next_addr s)), Timeout = 10 * Second\<rparr>, s1)
       \<and> next_addr s1 = Suc (Suc (next_addr s))
       \<and> events s1 = events s \<and> clock s1 = clock s
       \<and> requests s1 = requests s \<and> tape s1 = tl (tape s)
       \<and> heap s1 (next_addr s) = []
       \<and> (\<forall>b. b \<noteq> next_addr s \<and> b \<noteq> Suc (next_addr s) \<longrightarrow> heap s1 b = heap s b)
       \<and> heap s1 (Suc (next_addr s)) =
           foldl (\<lambda>t (k, v). AList.update k v t) []
             (permute (next_choice s)
                (case DefaultHeaders c of None \<Rightarrow> []
                 | Some d \<Rightarrow> if d = next_addr s \<or> d = Suc (next_addr s) then [] else heap s d))"
proof -
  let ?q = "next_addr s" and ?h = "Suc (next_addr s)"
  let ?s2 = "s\<lparr>heap := ((heap s)(?q := []))(?h := []), next_addr := Suc ?h\<rparr>"
  let ?r = "\<lparr>baseURL = BaseURL c, Method = m, Path = p, Query = Some ?q, Body = [],
             Headers = Some ?h, Timeout = 10 * Second\<rparr>"
  have hr: "Headers ?r = Some ?h" by simp
  let ?s3 = "after_range ?s2"
  from copy_headers_frame [OF hr, of "map_range (DefaultHeaders c) ?s2" ?s3]
  obtain s1 where s1: "copy_headers ?r (map_range (DefaultHeaders c) ?s2) ?s3 = Return s1"
    "next_addr s1 = next_addr ?s3" "events s1 = events ?s3" "clock s1 = clock ?s3"
    "requests s1 = requests ?s3" "tape s1 = tape ?s3"
    "\<forall>b. b \<noteq> ?h \<longrightarrow> heap s1 b = heap ?s3 b"
    "heap s1 ?h = foldl (\<lambda>t (k, v). AList.update k v t) (heap ?s3 ?h) (map_range (DefaultHeaders c) ?s2)"
    by (elim exE conjE)
  have nr: "NewRequest c m p s = Return (?r, s1)"
    using s1(1) by (simp add: NewRequest_def make_map_def Let_def)
  have me: "map_entries (DefaultHeaders c) ?s2 =
      (case DefaultHeaders c of None \<Rightarrow> []
       | Some d \<Rightarrow> if d = ?q \<or> d = ?h then [] else heap s d)"
    by (auto simp: map_entries_def split: option.splits)
  have mr: "map_range (DefaultHeaders c) ?s2 =
      permute (next_choice s)
        (case DefaultHeaders c of None \<Rightarrow> []
         | Some d \<Rightarrow> if d = ?q \<or> d = ?h then [] else heap s d)"
    by (simp add: map_range_def me next_choice_def)
  show ?thesis
    using nr s1(2-8) mr by (intro exI [of _ s1]) (auto simp: after_range_def)
qed

text \<open>
  Claim C10. Every Request returned by \<open>NewRequest\<close> carries two non-nil, allocated
  and distinct tables for \<open>Query\<close> and \<open>Headers\<close>; the query table is empty, and so is
  the header table when the client's default-header map is nil (as after
  \<open>NewClient\<close>). Hence \<open>SetHeader\<close> and \<open>SetQuery\<close> on such a Request return
  normally for every key and value, in every later state: the nil-map panic cannot
  occur.
\<close>

theorem C10_NewRequest_maps_initialised:
  "\<exists>r s1 q h. NewRequest c m p s = Return (r, s1)
      \<and> Query r = Some q \<and> Headers r = Some h \<and> q \<noteq> h
      \<and> q < next_addr s1 \<and> h < next_addr s1
      \<and> heap s1 q = []
      \<and> (DefaultHeaders c = None \<longrightarrow> heap s1 h = [])
      \<and> (\<forall>s' key value. \<exists>s2. SetHeader r key value s' = Return s2)
      \<and> (\<forall>s' key value. \<exists>s2. SetQuery r key value s' = Return s2)"
proof -
  from NewRequest_result [of c m p s] obtain s1 where
    s1: "NewRequest c m p s =
          Return (\<lparr>baseURL = BaseURL c, Method = m, Path = p,
                    Query = Some (next_addr s), Body = [],
                    Headers = Some (Suc (next_addr s)), Timeout = 10 * Second\<rparr>, s1)"
      "next_addr s1 = Suc (Suc (next_addr s))"
      "heap s1 (next_addr s) = []"
      "heap s1 (Suc (next_addr s)) =
           foldl (\<lambda>t (k, v). AList.update k v t) []
             (permute (next_choice s)
                (case DefaultHeaders c of None \<Rightarrow> []
                 | Some d \<Rightarrow> if d = next_addr s \<or> d = Suc (next_addr s) then [] else heap s d))"
    by (elim exE conjE)
  show ?thesis
    using s1 by (simp add: SetHeader_def SetQuery_def map_assign_Some)
qed

theorem C10_witness:
  "\<exists>r s1. NewRequest (NewClient ''https://api.example.com'') ''GET'' ''/items'' init_state = Return (r, s1)
      \<and> Query r = Some 0 \<and> Headers r = Some 1 \<and> heap s1 0 = [] \<and> heap s1 1 = []
      \<and> SetHeader r ''X'' (AInt 1) s1 = Return (s1\<lparr>heap := (heap s1)(1 := [(''X'', ''1'')])\<rparr>)
      \<and> SetQuery r ''q'' (AString ''v1'') s1 = Return (s1\<lparr>heap := (heap s1)(0 := [(''q'', ''v1'')])\<rparr>)"
proof -
  from C10_NewRequest_maps_initialised
    [of "NewClient ''https://api.example.com''" "''GET''" "''/items''" init_state]
  obtain r s1 q h where
    a: "NewRequest (NewClient ''https://api.example.com'') ''GET'' ''/items'' init_state = Return (r, s1)"
      "Query r = Some q" "Headers r = Some h" "heap s1 q = []"
      "DefaultHeaders (NewClient ''https://api.example.com'') = None \<longrightarrow> heap s1 h = []"
    by (elim exE conjE)
  from NewRequest_result [of "NewClient ''https://api.example.com''" "''GET''" "''/items''" init_state] a(1)
  have b: "Query r = Some 0" "Headers r = Some 1"
    by (auto simp: init_state_def)
  have d: "Sprintf_v (AInt 1) = ''1''"
    by code_simp
  show ?thesis
    using a b d by (simp add: NewClient_def SetHeader_def SetQuery_def map_assign_Some Sprintf_v_def)
qed

section \<open>Independence of the header tables\<close>

text \<open>
  One call on the client, run in two states that agree on what is allocated and on
  every table but \<open>h\<close>: as long as \<open>h\<close> is not the client's default map and the call
  does not install it, the call returns the same client in both, leaves \<open>h\<close> alone
  and keeps the two states in step.
\<close>

lemma do_client_op_sim:
  assumes "h < next_addr s" and "DefaultHeaders c \<noteq> Some h"
    and "cop \<noteq> OpSetDefaultHeaders (Some h)"
    and "next_addr sc = next_addr s" and "\<forall>b. b \<noteq> h \<longrightarrow> heap sc b = heap s b"
  shows "\<exists>c1 s1 sc1. do_client_op cop c s = Return (c1, s1)
           \<and> do_client_op cop c sc = Return (c1, sc1)
           \<and> heap s1 h = heap s h \<and> h < next_addr s1 \<and> DefaultHeaders c1 \<noteq> Some h
           \<and> next_addr sc1 = next_addr s1 \<and> (\<forall>b. b \<noteq> h \<longrightarrow> heap sc1 b = heap s1 b)"
proof (cases cop)
  case (OpSetDefaultHeaders x)
  then show ?thesis using assms by (simp add: SetDefaultHeaders_def)
next
  case (OpAddDefaultHeader key val)
  show ?thesis
  proof (cases "DefaultHeaders c")
    case None
    then show ?thesis
      using assms OpAddDefaultHeader
      by (simp add: AddDefaultHeader_def make_map_def map_assign_Some)
  next
    case (Some d)
    then show ?thesis
      using assms OpAddDefaultHeader
      by (simp add: AddDefaultHeader_def map_assign_Some)
  qed
qed

text \<open>
  Calls on the client and \<open>SetHeader\<close> calls on the request, interleaved: the
  request's table ends as the \<open>SetHeader\<close> calls alone leave it, and the client and
  every other table end as the client's calls alone leave them.
\<close>

lemma run_calls_independent:
  assumes "Headers r = Some h" and "h < next_addr s" and "DefaultHeaders c \<noteq> Some h"
    and "OnClient (OpSetDefaultHeaders (Some h)) \<notin> set calls"
    and "next_addr sc = next_addr s" and "\<forall>b. b \<noteq> h \<longrightarrow> heap sc b = heap s b"
    and "heap sr h = heap s h"
  shows "\<exists>c2 s2 s3 s4. run_calls calls c r s = Return (c2, s2)
           \<and> do_client_ops (client_calls calls) c sc = Return (c2, s3)
           \<and> do_SetHeaders (request_calls calls) r sr = Return s4
           \<and> heap s2 h = heap s4 h
           \<and> (\<forall>b. b \<noteq> h \<longrightarrow> heap s2 b = heap s3 b)
           \<and> DefaultHeaders c2 \<noteq> Some h"
  using assms
proof (induction calls arbitrary: c s sc sr)
  case Nil
  then show ?case by simp
next
  case (Cons cl calls)
  have rest: "OnClient (OpSetDefaultHeaders (Some h)) \<notin> set calls"
    using Cons.prems(4) by simp
  show ?case
  proof (cases cl)
    case (OnClient cop)
    then have "cop \<noteq> OpSetDefaultHeaders (Some h)" using Cons.prems(4) by auto
    from do_client_op_sim [OF Cons.prems(2,3) this Cons.prems(5,6)]
    obtain c1 s1 sc1 where 1: "do_client_op cop c s = Return (c1, s1)"
      "do_client_op cop c sc = Return (c1, sc1)"
      "heap s1 h = heap s h" "h < next_addr s1" "DefaultHeaders c1 \<noteq> Some h"
      "next_addr sc1 = next_addr s1" "\<forall>b. b \<noteq> h \<longrightarrow> heap sc1 b = heap s1 b"
      by (elim exE conjE)
    have "heap sr h = heap s1 h" using Cons.prems(7) 1(3) by simp
    from Cons.IH [OF Cons.prems(1) 1(4,5) rest 1(6,7) this]
    show ?thesis using OnClient 1(1,2) by simp
  next
    case (OnRequest key val)
    let ?s1 = "s\<lparr>heap := (heap s)(h := AList.update key (Sprintf_v val) (heap s h))\<rparr>"
    let ?sr1 = "sr\<lparr>heap := (heap sr)(h := AList.update key (Sprintf_v val) (heap sr h))\<rparr>"
    have a: "SetHeader r key val s = Return ?s1" "SetHeader r key val sr = Return ?sr1"
      using Cons.prems(1) by (simp_all add: SetHeader_def map_assign_Some)
    have b: "h < next_addr ?s1" "next_addr sc = next_addr ?s1"
      "\<forall>b. b \<noteq> h \<longrightarrow> heap sc b = heap ?s1 b" "heap ?sr1 h = heap ?s1 h"
      using Cons.prems(2,5,6,7) by simp_all
    from Cons.IH [OF Cons.prems(1) b(1) Cons.prems(3) rest b(2,3,4)]
    show ?thesis using OnRequest a by simp
  qed
qed

text \<open>
  Claim C5, as the code has it. The header table of a Request made by \<open>NewRequest\<close>
  is a fresh table, not the client's default map, and holds the entries the default
  map had at creation; creation leaves the defaults as they were. Afterwards, in any
  sequence of \<open>SetDefaultHeaders\<close> and \<open>AddDefaultHeader\<close> calls on the client
  interleaved with \<open>SetHeader\<close> calls on the Request in which the Request's own
  header map is never passed to \<open>SetDefaultHeaders\<close>, every call returns, the
  Request's table ends as the \<open>SetHeader\<close> calls alone leave it, and the client's
  default-header reference and the entries of its default map end as the client's
  calls alone leave them. The exclusion is needed: \<open>SetDefaultHeaders\<close> stores the
  map it is given, not a copy.
\<close>

theorem C5_headers_copy_unless_shared:
  assumes "wf_client c s"
  shows "\<exists>r s1 h. NewRequest c m p s = Return (r, s1) \<and> Headers r = Some h
           \<and> DefaultHeaders c \<noteq> Some h
           \<and> mset (heap s1 h) = mset (map_entries (DefaultHeaders c) s)
           \<and> map_entries (DefaultHeaders c) s1 = map_entries (DefaultHeaders c) s
           \<and> (\<forall>calls. OnClient (OpSetDefaultHeaders (Some h)) \<notin> set calls \<longrightarrow>
                (\<exists>c2 s2 s3 s4. run_calls calls c r s1 = Return (c2, s2)
                   \<and> do_client_ops (client_calls calls) c s1 = Return (c2, s3)
                   \<and> do_SetHeaders (request_calls calls) r s1 = Return s4
                   \<and> heap s2 h = heap s4 h
                   \<and> map_entries (DefaultHeaders c2) s2 = map_entries (DefaultHeaders c2) s3))"
proof -
  let ?q = "next_addr s" and ?h = "Suc (next_addr s)"
  let ?r = "\<lparr>baseURL = BaseURL c, Method = m, Path = p, Query = Some ?q, Body = [],
             Headers = Some ?h, Timeout = 10 * Second\<rparr>"
  from NewRequest_result [of c m p s] obtain s1 where
    s1: "NewRequest c m p s = Return (?r, s1)"
      "next_addr s1 = Suc (Suc (next_addr s))"
      "\<forall>b. b \<noteq> ?q \<and> b \<noteq> ?h \<longrightarrow> heap s1 b = heap s b"
      "heap s1 ?h =
           foldl (\<lambda>t (k, v). AList.update k v t) []
             (permute (next_choice s)
                (case DefaultHeaders c of None \<Rightarrow> []
                 | Some d \<Rightarrow> if d = ?q \<or> d = ?h then [] else heap s d))"
    by (elim exE conjE)
  have noalias: "DefaultHeaders c \<noteq> Some ?h"
    using assms by (auto simp: wf_client_def split: option.splits)
  have copy: "mset (heap s1 ?h) = mset (map_entries (DefaultHeaders c) s)"
  proof (cases "DefaultHeaders c")
    case None
    then show ?thesis using s1(4) by (simp add: map_entries_def)
  next
    case (Some d)
    then have d: "d < next_addr s" "distinct (map fst (heap s d))"
      using assms by (auto simp: wf_client_def)
    have "distinct (map fst ([] @ permute (next_choice s) (heap s d)))"
      using d(2) by (simp add: distinct_keys_permute)
    then have "foldl (\<lambda>t (k, v). AList.update k v t) [] (permute (next_choice s) (heap s d))
        = [] @ permute (next_choice s) (heap s d)"
      by (rule foldl_update_distinct)
    then show ?thesis using s1(4) Some d by (simp add: map_entries_def mset_permute)
  qed
  have same: "map_entries (DefaultHeaders c) s1 = map_entries (DefaultHeaders c) s"
    using s1(3) assms by (auto simp: map_entries_def wf_client_def split: option.splits)
  have hr: "Headers ?r = Some ?h" by simp
  have hal: "?h < next_addr s1" using s1(2) by simp
  have many: "\<exists>c2 s2 s3 s4. run_calls calls c ?r s1 = Return (c2, s2)
                   \<and> do_client_ops (client_calls calls) c s1 = Return (c2, s3)
                   \<and> do_SetHeaders (request_calls calls) ?r s1 = Return s4
                   \<and> heap s2 ?h = heap s4 ?h
                   \<and> map_entries (DefaultHeaders c2) s2 = map_entries (DefaultHeaders c2) s3"
    if "OnClient (OpSetDefaultHeaders (Some ?h)) \<notin> set calls" for calls
  proof -
    from run_calls_independent [OF hr hal noalias that, of s1 s1]
    obtain c2 s2 s3 s4 where r: "run_calls calls c ?r s1 = Return (c2, s2)"
      "do_client_ops (client_calls calls) c s1 = Return (c2, s3)"
      "do_SetHeaders (request_calls calls) ?r s1 = Return s4"
      "heap s2 ?h = heap s4 ?h" "\<forall>b. b \<noteq> ?h \<longrightarrow> heap s2 b = heap s3 b"
      "DefaultHeaders c2 \<noteq> Some ?h"
      by auto
    have "map_entries (DefaultHeaders c2) s2 = map_entries (DefaultHeaders c2) s3"
      using r(5,6) by (auto simp: map_entries_def split: option.splits)
    then show ?thesis using r(1-4) by simp
  qed
  show ?thesis
    using s1(1) noalias copy same many
    by (intro exI [of _ ?r] exI [of _ s1] exI [of _ ?h]) simp
qed

lemma example_NewRequest:
  "NewRequest example_client ''GET'' ''/items'' example_state = Return (example_request, example_state1)"
proof -
  from NewRequest_result [of example_client "''GET''" "''/items''" example_state]
  obtain s1 where
    s1: "NewRequest example_client ''GET'' ''/items'' example_state =
          Return (\<lparr>baseURL = BaseURL example_client, Method = ''GET'', Path = ''/items'',
                    Query = Some (next_addr example_state), Body = [],
                    Headers = Some (Suc (next_addr example_state)), Timeout = 10 * Second\<rparr>, s1)"
      "next_addr s1 = Suc (Suc (next_addr example_state))"
      "events s1 = events example_state" "clock s1 = clock example_state"
      "requests s1 = requests example_state" "tape s1 = tl (tape example_state)"
      "heap s1 (next_addr example_state) = []"
      "\<forall>b. b \<noteq> next_addr example_state \<and> b \<noteq> Suc (next_addr example_state)
           \<longrightarrow> heap s1 b = heap example_state b"
      "heap s1 (Suc (next_addr example_state)) =
           foldl (\<lambda>t (k, v). AList.update k v t) []
             (permute (next_choice example_state)
                (case DefaultHeaders example_client of None \<Rightarrow> []
                 | Some d \<Rightarrow> if d = next_addr example_state \<or> d = Suc (next_addr example_state)
                     then [] else heap example_state d))"
    by (elim exE conjE)
  have r: "\<lparr>baseURL = BaseURL example_client, Method = ''GET'', Path = ''/items'',
             Query = Some (next_addr example_state), Body = [],
             Headers = Some (Suc (next_addr example_state)), Timeout = 10 * Second\<rparr> = example_request"
    by (simp add: example_request_def example_client_def example_state_def numeral_2_eq_2)
  have h: "heap s1 = heap example_state1"
  proof
    fix a
    show "heap s1 a = heap example_state1 a"
      using s1(7,8,9)
      by (cases "a = 0"; cases "a = 1"; cases "a = 2")
         (simp_all add: example_state_def example_state1_def example_client_def next_choice_def
            numeral_2_eq_2)
  qed
  have "s1 = example_state1"
    using h s1(2-6)
    by (simp add: example_state_def example_state1_def numeral_3_eq_3)
  then show ?thesis using s1(1) r by simp
qed

theorem C5_witness:
  "wf_client example_client example_state
   \<and> (\<exists>r s1. NewRequest example_client ''GET'' ''/items'' example_state = Return (r, s1)
        \<and> Headers r = Some 2
        \<and> heap s1 2 = [(''Authorization'', ''Bearer t'')]
        \<and> (\<exists>c2 s2. run_calls [OnClient (OpAddDefaultHeader ''X'' (AString ''1'')),
                                OnRequest ''Y'' (AString ''2'')] example_client r s1 = Return (c2, s2)
              \<and> heap s2 2 = [(''Authorization'', ''Bearer t''), (''Y'', ''2'')]
              \<and> map_entries (DefaultHeaders c2) s2 = [(''Authorization'', ''Bearer t''), (''X'', ''1'')]))"
proof -
  have wf: "wf_client example_client example_state"
    by (simp add: wf_client_def example_client_def example_state_def)
  let ?calls = "[OnClient (OpAddDefaultHeader ''X'' (AString ''1'')), OnRequest ''Y'' (AString ''2'')]"
  from C5_headers_copy_unless_shared [OF wf, of "''GET''" "''/items''"]
  obtain r s1 h where
    a: "NewRequest example_client ''GET'' ''/items'' example_state = Return (r, s1)"
      "Headers r = Some h"
      "\<forall>calls. OnClient (OpSetDefaultHeaders (Some h)) \<notin> set calls \<longrightarrow>
                (\<exists>c2 s2 s3 s4. run_calls calls example_client r s1 = Return (c2, s2)
                   \<and> do_client_ops (client_calls calls) example_client s1 = Return (c2, s3)
                   \<and> do_SetHeaders (request_calls calls) r s1 = Return s4
                   \<and> heap s2 h = heap s4 h
                   \<and> map_entries (DefaultHeaders c2) s2 = map_entries (DefaultHeaders c2) s3)"
    by (elim exE conjE)
  have rs: "r = example_request" "s1 = example_state1"
    using a(1) example_NewRequest by simp_all
  have h: "h = 2" using a(2) rs by (simp add: example_request_def)
  have "OnClient (OpSetDefaultHeaders (Some h)) \<notin> set ?calls" by simp
  with a(3) obtain c2 s2 s3 s4 where
    b: "run_calls ?calls example_client r s1 = Return (c2, s2)"
      "do_client_ops (client_calls ?calls) example_client s1 = Return (c2, s3)"
      "do_SetHeaders (request_calls ?calls) r s1 = Return s4"
      "heap s2 h = heap s4 h"
      "map_entries (DefaultHeaders c2) s2 = map_entries (DefaultHeaders c2) s3"
    by blast
  have s4: "heap s4 2 = [(''Authorization'', ''Bearer t''), (''Y'', ''2'')]"
    using b(3) rs
    by (auto simp: SetHeader_def map_assign_Some Sprintf_v_def example_request_def example_state1_def)
  have s3: "DefaultHeaders c2 = Some 0"
    "heap s3 0 = [(''Authorization'', ''Bearer t''), (''X'', ''1'')]"
    using b(2) rs
    by (auto simp: AddDefaultHeader_def map_assign_Some Sprintf_v_def example_client_def example_state1_def)
  have t2: "heap s1 2 = [(''Authorization'', ''Bearer t'')]"
    using rs by (simp add: example_state1_def)
  show ?thesis
    using wf a(1,2) h b(1,4,5) s3 s4 t2 by (simp add: map_entries_def)
qed

text \<open>
  The exclusion cannot be dropped. \<open>SetDefaultHeaders\<close> stores the map it is given,
  so after \<^verbatim>\<open>c.SetDefaultHeaders(r.Headers)\<close> the client and the Request share
  one table: \<open>AddDefaultHeader\<close> on the client then writes the Request's headers,
  and \<open>SetHeader\<close> on the Request writes the client's defaults.
\<close>

theorem C5_counterexample:
  "NewRequest example_client ''GET'' ''/items'' example_state = Return (example_request, example_state1)
   \<and> Headers example_request = Some 2
   \<and> heap example_state1 2 = [(''Authorization'', ''Bearer t'')]
   \<and> (case run_calls [OnClient (OpSetDefaultHeaders (Some 2)),
                       OnClient (OpAddDefaultHeader ''X'' (AString ''1''))]
              example_client example_request example_state1 of
         Panic e \<Rightarrow> []
       | Return (c2, s2) \<Rightarrow> heap s2 2)
       = [(''Authorization'', ''Bearer t''), (''X'', ''1'')]
   \<and> (case do_client_ops [OpSetDefaultHeaders (Some 2)] example_client example_state1 of
         Panic e \<Rightarrow> []
       | Return (c2, s2) \<Rightarrow> map_entries (DefaultHeaders c2) s2)
       = [(''Authorization'', ''Bearer t'')]
   \<and> (case run_calls [OnClient (OpSetDefaultHeaders (Some 2)), OnRequest ''Y'' (AString ''2'')]
              example_client example_request example_state1 of
         Panic e \<Rightarrow> []
       | Return (c2, s2) \<Rightarrow> map_entries (DefaultHeaders c2) s2)
       = [(''Authorization'', ''Bearer t''), (''Y'', ''2'')]"
proof -
  have "Headers example_request = Some 2
   \<and> heap example_state1 2 = [(''Authorization'', ''Bearer t'')]
   \<and> (case run_calls [OnClient (OpSetDefaultHeaders (Some 2)),
                       OnClient (OpAddDefaultHeader ''X'' (AString ''1''))]
              example_client example_request example_state1 of
         Panic e \<Rightarrow> []
       | Return (c2, s2) \<Rightarrow> heap s2 2)
       = [(''Authorization'', ''Bearer t''), (''X'', ''1'')]
   \<and> (case do_client_ops [OpSetDefaultHeaders (Some 2)] example_client example_state1 of
         Panic e \<Rightarrow> []
       | Return (c2, s2) \<Rightarrow> map_entries (DefaultHeaders c2) s2)
       = [(''Authorization'', ''Bearer t'')]
   \<and> (case run_calls [OnClient (OpSetDefaultHeaders (Some 2)), OnRequest ''Y'' (AString ''2'')]
              example_client example_request example_state1 of
         Panic e \<Rightarrow> []
       | Return (c2, s2) \<Rightarrow> map_entries (DefaultHeaders c2) s2)
       = [(''Authorization'', ''Bearer t''), (''Y'', ''2'')]"
    by code_simp
  then show ?thesis using example_NewRequest by simp
qed

section \<open>Dispatch: shape of the result and frame\<close>

lemma emit_simps [simp]:
  "heap (emit ev s) = heap s" "next_addr (emit ev s) = next_addr s"
  "clock (emit ev s) = clock s" "events (emit ev s) = events s @ [ev]"
  "requests (emit ev s) = requests s" "tape (emit ev s) = tape s"
  by (simp_all add: emit_def)

lemma after_range_simps [simp]:
  "heap (after_range s) = heap s" "next_addr (after_range s) = next_addr s"
  "clock (after_range s) = clock s" "events (after_range s) = events s"
  "requests (after_range s) = requests s" "tape (after_range s) = tl (tape s)"
  by (simp_all add: after_range_def)

lemma deferred_simps [simp]:
  "fst (deferred ev res) = fst res" "snd (deferred ev res) = emit ev (snd res)"
  by (simp_all add: deferred_def)

lemma map_entries_heap_cong:
  "heap s' = heap s \<Longrightarrow> map_entries m s' = map_entries m s"
  by (cases m) (simp_all add: map_entries_def)

text \<open>
  Finishing the request reads the two tables and uses up two choices of order;
  nothing else of the state changes.
\<close>

lemma finish_request_state:
  "snd (finish_request e req r s) = after_range (after_range s)"
  by (simp add: finish_request_def Let_def)

lemma do_request_state:
  "snd (do_request e req s) = emit (EvDo req) (s\<lparr>clock := snd (client_Do e req (clock s))\<rparr>)"
  by (simp add: do_request_def Let_def split: sum.splits)

lemma do_request_result:
  "fst (do_request e req s) =
     (case fst (client_Do e req (clock s)) of
        Inl err \<Rightarrow> Return (None, Some err)
      | Inr res \<Rightarrow> Return (Some res, None))"
  by (simp add: do_request_def Let_def split: sum.splits)

lemma api_URL_Panic:
  "api_URL e r = Panic p \<Longrightarrow> p = NilPointerDereference \<and> url_Parse e (baseURL r) = None"
  by (auto simp: api_URL_def Let_def split: option.splits)

lemma SendWithCtx_frame:
  "heap (snd (SendWithCtx e ctx r s)) = heap s
   \<and> next_addr (snd (SendWithCtx e ctx r s)) = next_addr s
   \<and> requests (snd (SendWithCtx e ctx r s)) = requests s"
  by (simp add: SendWithCtx_def do_request_state finish_request_state split: outcome.splits sum.splits)

lemma SendWithCtx_result_shape:
  "(\<exists>p. fst (SendWithCtx e ctx r s) = Panic p)
   \<or> (\<exists>err. fst (SendWithCtx e ctx r s) = Return (None, Some err))
   \<or> (\<exists>res. fst (SendWithCtx e ctx r s) = Return (Some res, None))"
  by (simp add: SendWithCtx_def do_request_result split: outcome.splits sum.splits)

lemma Send_frame:
  "heap (snd (Send e r s)) = heap s
   \<and> next_addr (snd (Send e r s)) = next_addr s
   \<and> requests (snd (Send e r s)) = requests s"
  by (simp add: Send_def Let_def SendWithCtx_frame)

lemma example_request_made:
  "\<exists>s1. NewRequest example_client ''GET'' ''/items'' example_state = Return (example_request, s1)
     \<and> (\<exists>s2. SetQuery example_request ''q'' (AString ''v1'') s1 = Return s2
           \<and> heap s2 = heap example_state2 \<and> next_addr s2 = next_addr example_state2)"
proof -
  have "heap (example_state1\<lparr>heap := (heap example_state1)(1 := [(''q'', ''v1'')])\<rparr>)
          = heap example_state2"
    by (auto simp: example_state1_def example_state2_def fun_eq_iff)
  then show ?thesis
    using example_NewRequest
    by (simp add: SetQuery_def map_assign_Some example_request_def Sprintf_v_def
        example_state1_def example_state2_def)
qed

text \<open>
  Claim C9. Dispatch assigns no field of the Request, writes no map table and
  allocates none: after \<open>SendWithCtx\<close> and after \<open>Send\<close>, on any Request and also
  through a pointer \<open>p\<close> to a Request kept in the state, every Request struct of the
  state (so the one at \<open>p\<close> with its baseURL, method, path, body, timeout and its two
  map references) and every map table (so the entries of its query and header maps)
  is what it was before. A second dispatch through \<open>p\<close> therefore reads the same
  Request state as the first.
\<close>

theorem C9_dispatch_leaves_request_unchanged:
  "requests (snd (SendWithCtx e ctx r s)) = requests s
   \<and> heap (snd (SendWithCtx e ctx r s)) = heap s
   \<and> next_addr (snd (SendWithCtx e ctx r s)) = next_addr s
   \<and> requests (snd (Send e r s)) = requests s
   \<and> heap (snd (Send e r s)) = heap s
   \<and> next_addr (snd (Send e r s)) = next_addr s
   \<and> requests (snd (SendWithCtx_at e ctx p s)) p = requests s p
   \<and> requests (snd (Send_at e p s)) p = requests s p
   \<and> map_entries (Query (requests s p)) (snd (SendWithCtx_at e ctx p s))
        = map_entries (Query (requests s p)) s
   \<and> map_entries (Headers (requests s p)) (snd (SendWithCtx_at e ctx p s))
        = map_entries (Headers (requests s p)) s
   \<and> map_entries (Query (requests s p)) (snd (Send_at e p s))
        = map_entries (Query (requests s p)) s
   \<and> map_entries (Headers (requests s p)) (snd (Send_at e p s))
        = map_entries (Headers (requests s p)) s
   \<and> SendWithCtx_at e ctx p (snd (SendWithCtx_at e ctx p s))
        = SendWithCtx e ctx (requests s p) (snd (SendWithCtx_at e ctx p s))
   \<and> Send_at e p (snd (Send_at e p s)) = Send e (requests s p) (snd (Send_at e p s))"
  using SendWithCtx_frame [of e ctx r s] Send_frame [of e r s]
    SendWithCtx_frame [of e ctx "requests s p" s] Send_frame [of e "requests s p" s]
    map_entries_heap_cong [of "snd (SendWithCtx e ctx (requests s p) s)" s]
    map_entries_heap_cong [of "snd (Send e (requests s p) s)" s]
  by (simp add: SendWithCtx_at_def Send_at_def)

lemma example_dispatch:
  "fst (SendWithCtx (go_env (canned_net ''{}'')) Background example_request example_state2)
     = Return (Some (canned_response ''{}''), None)
   \<and> events (snd (SendWithCtx (go_env (canned_net ''{}'')) Background example_request example_state2))
     = [EvDo \<lparr>req_ctx = Background, req_Method = ''GET'',
              req_URL = \<lparr>url_Scheme = ''https'', url_Opaque = [], url_Host = ''api.example.com'',
                         url_Path = ''/items'', url_RawPath = [], url_OmitHost = False,
                         url_ForceQuery = False, url_RawQuery = ''q=v1'', url_Fragment = []\<rparr>,
              req_Header = [(''Authorization'', [''Bearer t''])], req_Body = []\<rparr>]"
  by code_simp

theorem C9_witness:
  "requests (snd (Send_at (go_env (canned_net ''{}'')) 0 (SetTimeout_at 0 (5 * Second) example_state2))) 0
     = example_request\<lparr>Timeout := 5 * Second\<rparr>
   \<and> heap (snd (Send_at (go_env (canned_net ''{}'')) 0 (SetTimeout_at 0 (5 * Second) example_state2))) 1
     = [(''q'', ''v1'')]
   \<and> heap (snd (Send_at (go_env (canned_net ''{}'')) 0 (SetTimeout_at 0 (5 * Second) example_state2))) 2
     = [(''Authorization'', ''Bearer t'')]"
proof -
  let ?E = "go_env (canned_net ''{}'')"
  let ?s = "SetTimeout_at 0 (5 * Second) example_state2"
  from C9_dispatch_leaves_request_unchanged [of ?E Background example_request ?s 0]
  have "requests (snd (Send_at ?E 0 ?s)) 0 = requests ?s 0"
    "heap (snd (Send ?E (requests ?s 0) ?s)) = heap ?s"
    by (simp_all add: Send_frame)
  then show ?thesis
    by (simp add: Send_at_def SetTimeout_at_def SetTimeout_def example_state2_def)
qed

text \<open>
  What dispatch does not promise is that two dispatches of one Request send the same
  request: the order in which a loop visits a map is chosen anew each time, and
  \<open>Header.Set\<close> stores under the canonical form of the key. With the header names
  \<^verbatim>\<open>x-a\<close> and \<^verbatim>\<open>X-A\<close> in the Request, the first dispatch below sends the header
  \<^verbatim>\<open>X-A: 2\<close> and the second \<^verbatim>\<open>X-A: 1\<close>, from the same Request state.
\<close>

lemma example_dispatch_twice:
  "map (\<lambda>ev. case ev of EvDo req \<Rightarrow> req_Header req | _ \<Rightarrow> [])
     (events (snd (SendWithCtx_at (go_env (canned_net ''{}'')) Background 0
        (snd (SendWithCtx_at (go_env (canned_net ''{}'')) Background 0 example_state_two_names)))))
     = [[(''X-A'', [''2''])], [(''X-A'', [''1''])]]"
  by code_simp

section \<open>Send and its deadline\<close>

lemma WithTimeout_Background:
  "context_WithTimeout Background d now = WithDeadline Background (now + d)"
  by (simp add: context_WithTimeout_def context_WithDeadline_def)

lemma NewRequest_Timeout:
  "NewRequest c m p s0 = Return (r, s) \<Longrightarrow> Timeout r = 10000000000"
  using NewRequest_result [of c m p s0] by (auto simp: Second_def)

text \<open>
  Claim C4. \<open>Send\<close> is the context-taking dispatch \<open>SendWithCtx\<close> run with a context
  whose deadline is the clock at the moment \<open>Send\<close> is entered plus the Request's
  timeout; it returns what that dispatch returns, and its last effect is the release
  (cancel) of that context. For a Request fresh from \<open>NewRequest\<close> the timeout is
  ten seconds.
\<close>

theorem C4_Send_is_SendWithCtx_with_timeout:
  "Send e r s = Send_spec e r s
   \<and> (\<exists>ctx. ctx_Deadline ctx = Some (clock s + Timeout r)
          \<and> fst (Send e r s) = fst (SendWithCtx e ctx r s)
          \<and> events (snd (Send e r s)) = events (snd (SendWithCtx e ctx r s)) @ [EvCancel ctx])
   \<and> (NewRequest c m p s0 = Return (r, s) \<longrightarrow>
         (\<exists>ctx. ctx_Deadline ctx = Some (clock s + 10 * 1000000000)
            \<and> fst (Send e r s) = fst (SendWithCtx e ctx r s)
            \<and> events (snd (Send e r s)) = events (snd (SendWithCtx e ctx r s)) @ [EvCancel ctx]))"
proof -
  let ?ctx = "WithDeadline Background (clock s + Timeout r)"
  have eq: "Send e r s = Send_spec e r s"
    by (simp add: Send_def Send_spec_def WithTimeout_Background deferred_def Let_def)
  have run: "ctx_Deadline ?ctx = Some (clock s + Timeout r)
         \<and> fst (Send e r s) = fst (SendWithCtx e ?ctx r s)
         \<and> events (snd (Send e r s)) = events (snd (SendWithCtx e ?ctx r s)) @ [EvCancel ?ctx]"
    by (simp add: Send_def WithTimeout_Background Let_def)
  have dflt: "\<exists>ctx. ctx_Deadline ctx = Some (clock s + 10 * 1000000000)
            \<and> fst (Send e r s) = fst (SendWithCtx e ctx r s)
            \<and> events (snd (Send e r s)) = events (snd (SendWithCtx e ctx r s)) @ [EvCancel ctx]"
    if "NewRequest c m p s0 = Return (r, s)"
    using run NewRequest_Timeout [OF that] by (intro exI [of _ ?ctx]) simp
  show ?thesis
    using eq run dflt by blast
qed

theorem C4_witness:
  "\<exists>s1. NewRequest example_client ''GET'' ''/items'' example_state = Return (example_request, s1)
     \<and> clock s1 = 0
     \<and> (\<exists>ctx. ctx_Deadline ctx = Some 10000000000
            \<and> fst (Send (go_env (canned_net ''{}'')) example_request s1)
                = fst (SendWithCtx (go_env (canned_net ''{}'')) ctx example_request s1)
            \<and> events (snd (Send (go_env (canned_net ''{}'')) example_request s1))
                = events (snd (SendWithCtx (go_env (canned_net ''{}'')) ctx example_request s1))
                  @ [EvCancel ctx])"
proof -
  from example_request_made obtain s1 where
    s1: "NewRequest example_client ''GET'' ''/items'' example_state = Return (example_request, s1)"
    by (elim exE conjE)
  from NewRequest_result [of example_client "''GET''" "''/items''" example_state] s1
  have c: "clock s1 = 0" by (auto simp: example_state_def)
  have "NewRequest example_client ''GET'' ''/items'' example_state = Return (example_request, s1) \<longrightarrow>
         (\<exists>ctx. ctx_Deadline ctx = Some (clock s1 + 10 * 1000000000)
            \<and> fst (Send (go_env (canned_net ''{}'')) example_request s1)
                = fst (SendWithCtx (go_env (canned_net ''{}'')) ctx example_request s1)
            \<and> events (snd (Send (go_env (canned_net ''{}'')) example_request s1))
                = events (snd (SendWithCtx (go_env (canned_net ''{}'')) ctx example_request s1))
                  @ [EvCancel ctx])"
    using C4_Send_is_SendWithCtx_with_timeout
      [of "go_env (canned_net ''{}'')" example_request s1 example_client "''GET''" "''/items''" example_state]
    by (elim conjE)
  with s1 c show ?thesis by (intro exI [of _ s1]) simp
qed

section \<open>The typed decode helper\<close>

lemma Send_result_shape:
  "(\<exists>p. fst (Send e r s) = Panic p)
   \<or> (\<exists>err. fst (Send e r s) = Return (None, Some err))
   \<or> (\<exists>res. fst (Send e r s) = Return (Some res, None))"
  using SendWithCtx_result_shape [of e "context_WithTimeout Background (Timeout r) (clock s)" r s]
  by (simp add: Send_def Let_def)

lemma SendWithJSONResponse_dispatch_error:
  assumes "Send e r s = (Return (res, Some err), s1)"
  shows "SendWithJSONResponse e zero um r s = (Return (zero, res, Some err), s1)"
  using assms by (simp add: SendWithJSONResponse_def)

lemma SendWithJSONResponse_panic:
  assumes "Send e r s = (Panic p, s1)"
  shows "SendWithJSONResponse e zero um r s = (Panic p, s1)"
  using assms by (simp add: SendWithJSONResponse_def)

lemma SendWithJSONResponse_read_error:
  assumes "Send e r s = (Return (Some resp, None), s1)"
    and "stream_err (resp_Body resp) = Some rerr"
  shows "SendWithJSONResponse e zero um r s =
           (Return (zero, Some resp, Some rerr),
            emit (EvClose (stream_id (resp_Body resp)))
              (emit (EvReadAll (stream_id (resp_Body resp))) s1))"
  using assms by (simp add: SendWithJSONResponse_def io_ReadAll_def deferred_def)

lemma SendWithJSONResponse_decoded:
  assumes "Send e r s = (Return (Some resp, None), s1)"
    and "stream_err (resp_Body resp) = None"
  shows "SendWithJSONResponse e zero um r s =
           (Return (fst (um (stream_data (resp_Body resp)) zero), Some resp,
                    snd (um (stream_data (resp_Body resp)) zero)),
            emit (EvClose (stream_id (resp_Body resp)))
              (emit (EvUnmarshal (stream_data (resp_Body resp)))
                 (emit (EvReadAll (stream_id (resp_Body resp))) s1)))"
  using assms
  by (cases "um (stream_data (resp_Body resp)) zero")
     (auto simp: SendWithJSONResponse_def io_ReadAll_def deferred_def Let_def)


text \<open>
  Claim C8. Whenever dispatch hands back a response, the decode helper closes its
  body exactly once, as its last effect, on each of its three exit paths: body-read
  failure, decode failure and success. The events the helper adds after \<open>Send\<close> end
  with the one \<open>Close\<close> of that body and contain no other.
\<close>

theorem C8_body_closed_exactly_once:
  assumes "Send e r s = (Return (Some resp, None), s1)"
  shows "\<exists>mid out. events (snd (SendWithJSONResponse e zero um r s))
              = events s1 @ mid @ [EvClose (stream_id (resp_Body resp))]
           \<and> EvClose (stream_id (resp_Body resp)) \<notin> set mid
           \<and> count_list (mid @ [EvClose (stream_id (resp_Body resp))])
                (EvClose (stream_id (resp_Body resp))) = 1
           \<and> fst (SendWithJSONResponse e zero um r s) = Return out
           \<and> fst (snd out) = Some resp
           \<and> snd (snd out) =
               (case stream_err (resp_Body resp) of
                  Some rerr \<Rightarrow> Some rerr
                | None \<Rightarrow> snd (um (stream_data (resp_Body resp)) zero))"
proof (cases "stream_err (resp_Body resp)")
  case None
  let ?mid = "[EvReadAll (stream_id (resp_Body resp)), EvUnmarshal (stream_data (resp_Body resp))]"
  show ?thesis
    using SendWithJSONResponse_decoded [OF assms None, of zero um] None
    by (intro exI [of _ ?mid]) simp
next
  case (Some rerr)
  let ?mid = "[EvReadAll (stream_id (resp_Body resp))]"
  show ?thesis
    using SendWithJSONResponse_read_error [OF assms Some, of zero um] Some
    by (intro exI [of _ ?mid]) simp
qed

lemma example_Send:
  "fst (Send (go_env (canned_net body_x_only)) example_request example_state2)
     = Return (Some (canned_response body_x_only), None)
   \<and> events (snd (Send (go_env (canned_net body_x_only)) example_request example_state2))
     = [EvDo \<lparr>req_ctx = WithDeadline Background 10000001000, req_Method = ''GET'',
              req_URL = \<lparr>url_Scheme = ''https'', url_Opaque = [], url_Host = ''api.example.com'',
                         url_Path = ''/items'', url_RawPath = [], url_OmitHost = False,
                         url_ForceQuery = False, url_RawQuery = ''q=v1'', url_Fragment = []\<rparr>,
              req_Header = [(''Authorization'', [''Bearer t''])], req_Body = []\<rparr>,
        EvCancel (WithDeadline Background 10000001000)]"
  by code_simp

theorem C8_witness:
  "\<exists>mid. events (snd (SendWithJSONResponse (go_env (canned_net body_x_only)) (zero_struct struct_AX)
                     (Unmarshal_struct struct_AX) example_request example_state2))
      = [EvDo \<lparr>req_ctx = WithDeadline Background 10000001000, req_Method = ''GET'',
              req_URL = \<lparr>url_Scheme = ''https'', url_Opaque = [], url_Host = ''api.example.com'',
                         url_Path = ''/items'', url_RawPath = [], url_OmitHost = False,
                         url_ForceQuery = False, url_RawQuery = ''q=v1'', url_Fragment = []\<rparr>,
              req_Header = [(''Authorization'', [''Bearer t''])], req_Body = []\<rparr>,
         EvCancel (WithDeadline Background 10000001000)] @ mid @ [EvClose 7]
     \<and> EvClose 7 \<notin> set mid"
proof -
  let ?E = "go_env (canned_net body_x_only)"
  have hyp: "Send ?E example_request example_state2
      = (Return (Some (canned_response body_x_only), None), snd (Send ?E example_request example_state2))"
    using example_Send by (simp add: prod_eq_iff)
  have id: "stream_id (resp_Body (canned_response body_x_only)) = 7"
    by (simp add: canned_response_def)
  from C8_body_closed_exactly_once [OF hyp, of "zero_struct struct_AX" "Unmarshal_struct struct_AX"]
  obtain mid where
    "events (snd (SendWithJSONResponse ?E (zero_struct struct_AX) (Unmarshal_struct struct_AX)
                     example_request example_state2))
       = events (snd (Send ?E example_request example_state2)) @ mid
           @ [EvClose (stream_id (resp_Body (canned_response body_x_only)))]"
    "EvClose (stream_id (resp_Body (canned_response body_x_only))) \<notin> set mid"
    by (elim exE conjE)
  then show ?thesis
    using example_Send id by (intro exI [of _ mid]) simp
qed

lemma Send_error_no_response:
  assumes "Send e r s = (Return (res, Some err), s1)"
  shows "res = None"
  using assms Send_result_shape [of e r s] by auto

text \<open>
  Claim C3, as the code has it. If dispatch returns an error, the helper returns the
  zero value of \<open>T\<close>, the nil response and that error, in the state dispatch left:
  nothing is read, decoded or closed, whatever the decoder. If the body is read and
  the decoder reports an error, the helper returns that error with the raw response
  and the value \<open>j\<close> that the decoder left in the target, which it was handed
  holding the zero value of \<open>T\<close>.
\<close>

theorem C3_decode_helper_errors:
  "(Send e r s = (Return (res, Some err), s1) \<longrightarrow>
      res = None
      \<and> (\<forall>um'. SendWithJSONResponse e zero um' r s = (Return (zero, res, Some err), s1)))
   \<and> (Send e r s = (Return (Some resp, None), s1)
        \<and> io_ReadAll (resp_Body resp) = (body, None)
        \<and> um body zero = (j, Some derr) \<longrightarrow>
      fst (SendWithJSONResponse e zero um r s) = Return (j, Some resp, Some derr))"
proof (intro conjI impI)
  assume a: "Send e r s = (Return (res, Some err), s1)"
  show "res = None" by (rule Send_error_no_response [OF a])
  show "\<forall>um'. SendWithJSONResponse e zero um' r s = (Return (zero, res, Some err), s1)"
    by (intro allI) (rule SendWithJSONResponse_dispatch_error [OF a])
next
  assume b: "Send e r s = (Return (Some resp, None), s1)
        \<and> io_ReadAll (resp_Body resp) = (body, None)
        \<and> um body zero = (j, Some derr)"
  then have "stream_err (resp_Body resp) = None" "stream_data (resp_Body resp) = body"
    by (simp_all add: io_ReadAll_def)
  with b SendWithJSONResponse_decoded [of e r s resp s1 zero um]
  show "fst (SendWithJSONResponse e zero um r s) = Return (j, Some resp, Some derr)"
    by simp
qed

text \<open>
  The claim as stated fails: decoding
  \<^verbatim>\<open>{"a": 1, "x": "not-a-number"}\<close> into the struct with integer fields \<open>a\<close> and
  \<open>x\<close> reports the type error for \<open>x\<close> after it has stored \<open>a\<close>, and the helper returns
  that partly filled value, not the zero value.
\<close>

theorem C3_counterexample:
  "fst (SendWithJSONResponse (go_env (canned_net body_a_and_x)) (zero_struct struct_AX)
          (Unmarshal_struct struct_AX) example_request example_state2)
     = Return ([1, 0], Some (canned_response body_a_and_x),
               Some ''json: cannot unmarshal string into Go struct field .x of type int'')
   \<and> zero_struct struct_AX = [0, 0]
   \<and> [1, 0] \<noteq> zero_struct struct_AX"
  by code_simp

lemma example_Send_refused:
  "fst (Send (go_env refusing_net) example_request example_state2)
     = Return (None, Some ''dial tcp: connection refused'')"
  by code_simp

lemma example_decode_x_only:
  "Unmarshal_struct struct_AX body_x_only (zero_struct struct_AX)
     = ([0, 0], Some ''json: cannot unmarshal string into Go struct field .x of type int'')
   \<and> zero_struct struct_AX = [0, 0]"
  by code_simp

theorem C3_witness:
  "fst (SendWithJSONResponse (go_env refusing_net) (zero_struct struct_AX)
          (Unmarshal_struct struct_AX) example_request example_state2)
     = Return ([0, 0], None, Some ''dial tcp: connection refused'')
   \<and> snd (SendWithJSONResponse (go_env refusing_net) (zero_struct struct_AX)
          (Unmarshal_struct struct_AX) example_request example_state2)
     = snd (Send (go_env refusing_net) example_request example_state2)
   \<and> fst (SendWithJSONResponse (go_env (canned_net body_x_only)) (zero_struct struct_AX)
          (Unmarshal_struct struct_AX) example_request example_state2)
     = Return ([0, 0], Some (canned_response body_x_only),
               Some ''json: cannot unmarshal string into Go struct field .x of type int'')"
proof -
  let ?R = "go_env refusing_net" and ?E = "go_env (canned_net body_x_only)"
  let ?z = "zero_struct struct_AX" and ?um = "Unmarshal_struct struct_AX"
  let ?derr = "''json: cannot unmarshal string into Go struct field .x of type int''"
  have h1: "Send ?R example_request example_state2
      = (Return (None, Some ''dial tcp: connection refused''),
         snd (Send ?R example_request example_state2))"
    using example_Send_refused by (simp add: prod_eq_iff)
  have h2: "Send ?E example_request example_state2
      = (Return (Some (canned_response body_x_only), None),
         snd (Send ?E example_request example_state2))"
    using example_Send by (simp add: prod_eq_iff)
  have h3: "io_ReadAll (resp_Body (canned_response body_x_only)) = (body_x_only, None)"
    by (simp add: io_ReadAll_def canned_response_def)
  have z: "?z = [0, 0]"
    using example_decode_x_only by (elim conjE)
  have "?um body_x_only ?z = ([0, 0], Some ?derr)"
    using example_decode_x_only by (elim conjE)
  then have h4: "?um body_x_only ?z = (?z, Some ?derr)"
    by (simp only: z)
  have first: "SendWithJSONResponse ?R ?z ?um example_request example_state2
      = (Return (?z, None, Some ''dial tcp: connection refused''),
         snd (Send ?R example_request example_state2))"
    using C3_decode_helper_errors
      [of ?R example_request example_state2 None "''dial tcp: connection refused''"
          "snd (Send ?R example_request example_state2)" ?z] h1
    by blast
  have second: "fst (SendWithJSONResponse ?E ?z ?um example_request example_state2)
      = Return (?z, Some (canned_response body_x_only), Some ?derr)"
    using C3_decode_helper_errors
      [of ?E example_request example_state2 _ _ "snd (Send ?E example_request example_state2)"
          ?z "canned_response body_x_only" body_x_only ?um ?z ?derr] h2 h3 h4
    by blast
  show ?thesis
    using first second by (simp only: z fst_conv snd_conv simp_thms)
qed

section \<open>Printing and parsing a URL keeps its raw query\<close>

lemma Cut_absent: "c \<notin> set s \<Longrightarrow> Cut s c = (s, [])"
  by (induction s) (auto simp: Cut_def)

lemma Cut_first: "c \<notin> set a \<Longrightarrow> Cut (a @ c # b) c = (a, b)"
  by (induction a) (auto simp: Cut_def)

lemma set_Cut_fst: "set (fst (Cut s c)) \<subseteq> set s - {c}"
  by (auto simp: Cut_def dest: set_takeWhileD)

lemma set_Cut_snd: "set (snd (Cut s c)) \<subseteq> set s"
  by (auto simp: Cut_def dest: set_dropWhileD in_set_dropD)

lemma getScheme_loop_Ok:
  "getScheme_loop raw pre cs = Ok (scheme, rest) \<Longrightarrow>
     (scheme = [] \<and> rest = raw) \<or> (\<exists>mid. cs = mid @ CHR '':'' # rest \<and> scheme = pre @ mid \<and> (\<forall>c\<in>set mid. sch c))"
proof (induction raw pre cs rule: getScheme_loop.induct)
  case (1 rawURL pre)
  then show ?case by simp
next
  case (2 rawURL pre c cs)
  show ?case
  proof (cases "is_lower c \<or> is_upper c")
    case True
    then have "getScheme_loop rawURL (pre @ [c]) cs = Ok (scheme, rest)" using 2(3) by simp
    from 2(1) [OF True this] show ?thesis
    proof
      assume "scheme = [] \<and> rest = rawURL" then show ?thesis by simp
    next
      assume "\<exists>mid. cs = mid @ CHR '':'' # rest \<and> scheme = (pre @ [c]) @ mid \<and> (\<forall>c\<in>set mid. sch c)"
      then obtain mid where "cs = mid @ CHR '':'' # rest" "scheme = (pre @ [c]) @ mid" "\<forall>c\<in>set mid. sch c"
        by (elim exE conjE)
      then have "c # cs = (c # mid) @ CHR '':'' # rest \<and> scheme = pre @ (c # mid) \<and> (\<forall>x\<in>set (c # mid). sch x)"
        using True by (auto simp: sch_def)
      then show ?thesis by blast
    qed
  next
    case False
    show ?thesis
    proof (cases "is_digit c \<or> c = CHR ''+'' \<or> c = CHR ''-'' \<or> c = CHR ''.''")
      case d: True
      show ?thesis
      proof (cases "pre = []")
        case True
        then show ?thesis using 2(3) False d by simp
      next
        case ne: False
        then have "getScheme_loop rawURL (pre @ [c]) cs = Ok (scheme, rest)" using 2(3) False d by simp
        from 2(2) [OF False d ne this] show ?thesis
        proof
          assume "scheme = [] \<and> rest = rawURL" then show ?thesis by simp
        next
          assume "\<exists>mid. cs = mid @ CHR '':'' # rest \<and> scheme = (pre @ [c]) @ mid \<and> (\<forall>c\<in>set mid. sch c)"
          then obtain mid where "cs = mid @ CHR '':'' # rest" "scheme = (pre @ [c]) @ mid" "\<forall>c\<in>set mid. sch c"
            by (elim exE conjE)
          then have "c # cs = (c # mid) @ CHR '':'' # rest \<and> scheme = pre @ (c # mid) \<and> (\<forall>x\<in>set (c # mid). sch x)"
            using d by (auto simp: sch_def)
          then show ?thesis by blast
        qed
      qed
    next
      case nd: False
      show ?thesis
      proof (cases "c = CHR '':''")
        case True
        then have "pre \<noteq> [] \<and> scheme = pre \<and> rest = cs" using 2(3) False nd by (auto split: if_splits)
        then have "c # cs = [] @ CHR '':'' # rest \<and> scheme = pre @ [] \<and> (\<forall>x\<in>set []. sch x)"
          using True by simp
        then show ?thesis by blast
      next
        case False
        then show ?thesis using 2(3) \<open>\<not> (is_lower c \<or> is_upper c)\<close> nd by simp
      qed
    qed
  qed
qed

lemma getScheme_Ok:
  "getScheme raw = Ok (scheme, rest) \<Longrightarrow>
     (scheme = [] \<and> rest = raw) \<or> (raw = scheme @ CHR '':'' # rest \<and> (\<forall>c\<in>set scheme. sch c))"
  using getScheme_loop_Ok [of raw "[]" raw scheme rest] by (auto simp: getScheme_def)

lemma sch_not_special: "sch c \<Longrightarrow> c \<noteq> CHR ''?'' \<and> c \<noteq> CHR ''#''"
  by (auto simp: sch_def is_lower_def is_upper_def is_digit_def less_eq_char_def)

lemma to_lower_upper:
  assumes "is_upper c"
  shows "of_char (to_lower c) = (of_char c + 32 :: nat)"
proof -
  have "65 \<le> (of_char c :: nat)" "(of_char c :: nat) \<le> 90"
    using assms by (simp_all add: is_upper_def less_eq_char_def)
  then have "(of_char c + 32 :: nat) < 256" by simp
  then show ?thesis using assms by (simp add: to_lower_def)
qed

lemma to_lower_not_special: "sch c \<Longrightarrow> to_lower c \<noteq> CHR ''?'' \<and> to_lower c \<noteq> CHR ''#''"
proof (cases "is_upper c")
  case True
  have "65 \<le> (of_char c :: nat)"
    using True by (simp add: is_upper_def less_eq_char_def)
  then have "(of_char (to_lower c) :: nat) \<ge> 97" using to_lower_upper [OF True] by simp
  then show ?thesis by auto
next
  case False
  assume "sch c"
  then show ?thesis using False sch_not_special [of c] by (simp add: to_lower_def)
qed

lemma upperhex_not_special:
  "i < 16 \<Longrightarrow> upperhex ! i \<noteq> CHR ''?'' \<and> upperhex ! i \<noteq> CHR ''#''"
proof -
  have "\<forall>i<16. upperhex ! i \<noteq> CHR ''?'' \<and> upperhex ! i \<noteq> CHR ''#''"
    by (simp add: upperhex_def All_less_Suc2 numeral_eq_Suc)
  then show "i < 16 \<Longrightarrow> upperhex ! i \<noteq> CHR ''?'' \<and> upperhex ! i \<noteq> CHR ''#''" by blast
qed

lemma shouldEscape_special:
  "shouldEscape CHR ''?'' mode = (mode \<noteq> encodeQueryComponent \<or> True)" "shouldEscape CHR ''#'' mode"
  by (cases mode; simp add: shouldEscape_def is_alnum_def is_lower_def is_upper_def is_digit_def less_eq_char_def)+

lemma escape_byte_not_special:
  "CHR ''?'' \<notin> set (escape_byte mode c) \<and> CHR ''#'' \<notin> set (escape_byte mode c)"
proof (cases "shouldEscape c mode")
  case True
  have "(of_char c :: nat) < 256" by (rule nat_of_char_less_256)
  then have n: "of_char c div 16 < (16::nat)" "of_char c mod 16 < (16::nat)"
    by presburger+
  show ?thesis
    using True upperhex_not_special [OF n(1)] upperhex_not_special [OF n(2)]
    by (auto simp: escape_byte_def)
next
  case False
  then have "c \<noteq> CHR ''?''" "c \<noteq> CHR ''#''"
    using shouldEscape_special [of mode] by auto
  then show ?thesis using False by (simp add: escape_byte_def)
qed

lemma escape_not_special:
  "CHR ''?'' \<notin> set (escape s mode) \<and> CHR ''#'' \<notin> set (escape s mode)"
  using escape_byte_not_special by (auto simp: escape_def)


lemma setPath_Ok:
  "setPath u0 p = Ok u \<Longrightarrow>
     (url_RawPath u = [] \<or> url_RawPath u = p) \<and> url_Scheme u = url_Scheme u0
     \<and> url_Opaque u = url_Opaque u0 \<and> url_RawQuery u = url_RawQuery u0
     \<and> url_ForceQuery u = url_ForceQuery u0 \<and> url_Fragment u = url_Fragment u0"
  by (auto simp: setPath_def split: option.splits)

lemma parse_url_Ok:
  assumes "parse_url raw = Ok u"
  shows "(raw = [CHR 0x2A] \<and> u = empty_URL\<lparr>url_Path := [CHR 0x2A]\<rparr>)
       \<or> (\<exists>scheme rest0. getScheme raw = Ok (scheme, rest0)
             \<and> url_RawQuery u = query_of rest0
             \<and> url_Scheme u = map to_lower scheme
             \<and> url_Fragment u = []
             \<and> (url_Opaque u = [] \<or> url_Opaque u = rest_of rest0)
             \<and> (url_RawPath u = [] \<or> set (url_RawPath u) \<subseteq> set (rest_of rest0)))"
proof (cases "raw = [CHR 0x2A]")
  case True
  then show ?thesis using assms by (simp add: parse_url_def split: if_splits)
next
  case False
  from assms False obtain scheme rest0 where g: "getScheme raw = Ok (scheme, rest0)"
    by (auto simp: parse_url_def split: if_splits parsed.splits)
  define u0 where "u0 = empty_URL\<lparr>url_Scheme := map to_lower scheme,
        url_ForceQuery := (HasSuffix rest0 ''?'' \<and> count_list rest0 CHR ''?'' = 1),
        url_RawQuery := query_of rest0\<rparr>"
  have u0: "url_RawQuery u0 = query_of rest0" "url_Scheme u0 = map to_lower scheme"
    "url_Fragment u0 = []" "url_Opaque u0 = []" "url_RawPath u0 = []"
    by (simp_all add: u0_def empty_URL_def)
  have "u = u0\<lparr>url_Opaque := rest_of rest0\<rparr>
      \<or> (\<exists>host. setPath (u0\<lparr>url_Host := host\<rparr>)
             (dropWhile (\<lambda>c. c \<noteq> CHR ''/'') (drop 2 (rest_of rest0))) = Ok u)
      \<or> (\<exists>b. setPath (u0\<lparr>url_OmitHost := b\<rparr>) (rest_of rest0) = Ok u)"
    using assms False g
    by (auto simp: parse_url_def Let_def u0_def query_of_def rest_of_def
        split: if_splits parsed.splits)
  then show ?thesis
  proof (elim disjE exE)
    assume "u = u0\<lparr>url_Opaque := rest_of rest0\<rparr>"
    then show ?thesis using g u0 by simp
  next
    fix host
    assume sp: "setPath (u0\<lparr>url_Host := host\<rparr>)
             (dropWhile (\<lambda>c. c \<noteq> CHR ''/'') (drop 2 (rest_of rest0))) = Ok u"
    have "set (dropWhile (\<lambda>c. c \<noteq> CHR ''/'') (drop 2 (rest_of rest0))) \<subseteq> set (rest_of rest0)"
      by (meson in_set_dropD set_dropWhileD subsetI)
    with setPath_Ok [OF sp] show ?thesis
      using g u0 by auto
  next
    fix b
    assume "setPath (u0\<lparr>url_OmitHost := b\<rparr>) (rest_of rest0) = Ok u"
    from setPath_Ok [OF this] show ?thesis
      using g u0 by auto
  qed
qed


lemma HasSuffix_one:
  "HasSuffix s [c] \<Longrightarrow> s \<noteq> [] \<and> last s = c"
proof -
  assume h: "HasSuffix s [c]"
  then have ne: "s \<noteq> []" by (auto simp: HasSuffix_def)
  then have "s = butlast s @ [last s]" by simp
  then have "drop (length s - 1) s = [last s]"
    by (metis append_eq_conv_conj length_butlast)
  then show ?thesis using h ne by (simp add: HasSuffix_def)
qed

lemma rest_of_no_question:
  "CHR ''?'' \<notin> set (rest_of rest0)"
proof (cases "HasSuffix rest0 ''?'' \<and> count_list rest0 CHR ''?'' = 1")
  case True
  then have ne: "rest0 \<noteq> []" "last rest0 = CHR ''?''"
    using HasSuffix_one [of rest0 "CHR ''?''"] by simp_all
  then have "rest0 = butlast rest0 @ [CHR ''?'']"
    by (metis append_butlast_last_id)
  then have "count_list rest0 CHR ''?'' = count_list (butlast rest0) CHR ''?'' + 1"
    by (metis count_list.simps(1) count_list.simps(2) count_list_append add.right_neutral add.commute)
  then have "count_list (butlast rest0) CHR ''?'' = 0" using True by simp
  then show ?thesis using True by (simp add: rest_of_def count_list_0_iff)
next
  case False
  then show ?thesis using set_Cut_fst [of rest0 "CHR ''?''"] by (auto simp: rest_of_def)
qed

lemma rest_of_subset: "set (rest_of rest0) \<subseteq> set rest0"
  using set_Cut_fst [of rest0 "CHR ''?''"] by (auto simp: rest_of_def dest: in_set_butlastD)

lemma query_of_subset: "set (query_of rest0) \<subseteq> set rest0"
  using set_Cut_snd [of rest0 "CHR ''?''"] by (auto simp: query_of_def)

text \<open>What the parser leaves in a URL holds no question mark and no number sign.\<close>

lemma parse_url_plain:
  assumes "parse_url raw = Ok u" and "CHR ''#'' \<notin> set raw"
  shows "url_Fragment u = [] \<and> CHR ''#'' \<notin> set (url_RawQuery u)
       \<and> CHR ''?'' \<notin> set (url_Scheme u) \<and> CHR ''#'' \<notin> set (url_Scheme u)
       \<and> CHR ''?'' \<notin> set (url_Opaque u) \<and> CHR ''#'' \<notin> set (url_Opaque u)
       \<and> CHR ''?'' \<notin> set (url_RawPath u) \<and> CHR ''#'' \<notin> set (url_RawPath u)"
proof -
  from parse_url_Ok [OF assms(1)] consider
    (star) "u = empty_URL\<lparr>url_Path := [CHR 0x2A]\<rparr>"
  | (general) scheme rest0 where "getScheme raw = Ok (scheme, rest0)"
      "url_RawQuery u = query_of rest0" "url_Scheme u = map to_lower scheme"
      "url_Fragment u = []" "url_Opaque u = [] \<or> url_Opaque u = rest_of rest0"
      "url_RawPath u = [] \<or> set (url_RawPath u) \<subseteq> set (rest_of rest0)"
    by blast
  then show ?thesis
  proof cases
    case star
    then show ?thesis by (simp add: empty_URL_def)
  next
    case (general scheme rest0)
    note g = general(1) and f = general(2-6)
    from getScheme_Ok [OF g] have r0: "set rest0 \<subseteq> set raw" and s: "\<forall>c\<in>set scheme. sch c"
      by auto
    have h0: "CHR ''#'' \<notin> set rest0" using r0 assms(2) by auto
    have hr: "CHR ''#'' \<notin> set (rest_of rest0)" "CHR ''#'' \<notin> set (query_of rest0)"
      using h0 rest_of_subset [of rest0] query_of_subset [of rest0] by auto
    have sc1: "CHR ''?'' \<notin> set (map to_lower scheme)"
    proof
      assume "CHR ''?'' \<in> set (map to_lower scheme)"
      then obtain c where "c \<in> set scheme" "to_lower c = CHR ''?''" by auto
      then show False using s to_lower_not_special by blast
    qed
    have sc2: "CHR ''#'' \<notin> set (map to_lower scheme)"
    proof
      assume "CHR ''#'' \<in> set (map to_lower scheme)"
      then obtain c where "c \<in> set scheme" "to_lower c = CHR ''#''" by auto
      then show False using s to_lower_not_special by blast
    qed
    show ?thesis
      using f hr sc1 sc2 rest_of_no_question [of rest0] by auto
  qed
qed

lemma Parse_ptr_plain:
  assumes "Parse_ptr b = Some u"
  shows "url_Fragment u = [] \<and> CHR ''#'' \<notin> set (url_RawQuery u)
       \<and> CHR ''?'' \<notin> set (url_Scheme u) \<and> CHR ''#'' \<notin> set (url_Scheme u)
       \<and> CHR ''?'' \<notin> set (url_Opaque u) \<and> CHR ''#'' \<notin> set (url_Opaque u)
       \<and> CHR ''?'' \<notin> set (url_RawPath u) \<and> CHR ''#'' \<notin> set (url_RawPath u)"
proof -
  have "parse_url (fst (Cut b CHR ''#'')) = Ok u"
    using assms by (auto simp: Parse_ptr_def Parse_def split: parsed.splits if_splits)
  moreover have "CHR ''#'' \<notin> set (fst (Cut b CHR ''#''))"
    using set_Cut_fst [of b "CHR ''#''"] by auto
  ultimately show ?thesis by (rule parse_url_plain)
qed

lemma EscapedPath_plain:
  assumes "CHR ''?'' \<notin> set (url_RawPath u)" and "CHR ''#'' \<notin> set (url_RawPath u)"
  shows "CHR ''?'' \<notin> set (EscapedPath u) \<and> CHR ''#'' \<notin> set (EscapedPath u)"
  using assms escape_not_special [of "url_Path u" encodePath] by (simp add: EscapedPath_def)

lemma URL_String_shape:
  assumes "url_Fragment u = []"
    and "CHR ''?'' \<notin> set (url_Scheme u)" and "CHR ''#'' \<notin> set (url_Scheme u)"
    and "CHR ''?'' \<notin> set (url_Opaque u)" and "CHR ''#'' \<notin> set (url_Opaque u)"
    and "CHR ''?'' \<notin> set (url_RawPath u)" and "CHR ''#'' \<notin> set (url_RawPath u)"
  shows "\<exists>buf. URL_String u = buf @ query_part u \<and> CHR ''?'' \<notin> set buf \<and> CHR ''#'' \<notin> set buf"
proof -
  have p: "CHR ''?'' \<notin> set (EscapedPath u)" "CHR ''#'' \<notin> set (EscapedPath u)"
    using EscapedPath_plain [OF assms(6,7)] by simp_all
  have h: "CHR ''?'' \<notin> set (escape (url_Host u) encodeHost)"
    "CHR ''#'' \<notin> set (escape (url_Host u) encodeHost)"
    using escape_not_special [of "url_Host u" encodeHost] by simp_all
  define buf1 where "buf1 = (if url_Scheme u \<noteq> [] then url_Scheme u @ '':'' else [])"
  define buf3 where "buf3 =
     (if (url_Scheme u \<noteq> [] \<or> url_Host u \<noteq> []) \<and> \<not> (url_OmitHost u \<and> url_Host u = [])
      then buf1 @ (if url_Host u \<noteq> [] \<or> url_Path u \<noteq> [] then ''//'' else [])
             @ (if url_Host u \<noteq> [] then escape (url_Host u) encodeHost else [])
      else buf1)"
  define buf4 where "buf4 =
     (if EscapedPath u \<noteq> [] \<and> hd (EscapedPath u) \<noteq> CHR ''/'' \<and> url_Host u \<noteq> []
      then buf3 @ ''/'' else buf3)"
  define buf5 where "buf5 =
     (if length buf4 = 0 \<and> CHR '':'' \<in> set (fst (Cut (EscapedPath u) CHR ''/''))
      then buf4 @ ''./'' else buf4)"
  define buf2 where "buf2 = (if url_Opaque u \<noteq> [] then buf1 @ url_Opaque u else buf5 @ EscapedPath u)"
  have b1: "CHR ''?'' \<notin> set buf1" "CHR ''#'' \<notin> set buf1"
    using assms(2,3) by (simp_all add: buf1_def)
  have b3: "CHR ''?'' \<notin> set buf3" "CHR ''#'' \<notin> set buf3"
    using b1 h by (simp_all add: buf3_def)
  have b4: "CHR ''?'' \<notin> set buf4" "CHR ''#'' \<notin> set buf4"
    using b3 by (simp_all add: buf4_def)
  have b5: "CHR ''?'' \<notin> set buf5" "CHR ''#'' \<notin> set buf5"
    using b4 by (simp_all add: buf5_def)
  have b2: "CHR ''?'' \<notin> set buf2" "CHR ''#'' \<notin> set buf2"
    using b1 b5 p assms(4,5) by (simp_all add: buf2_def)
  have "URL_String u = buf2 @ query_part u"
    using assms(1)
    by (simp add: URL_String_def Let_def query_part_def buf2_def buf5_def buf4_def buf3_def buf1_def)
  then show ?thesis using b2 by blast
qed

lemma suffix_after_plain_prefix:
  assumes "buf @ q = D @ rest" and "CHR ''?'' \<notin> set D" and "CHR ''?'' \<notin> set buf"
    and "q = [] \<or> (\<exists>rq. q = CHR ''?'' # rq)"
  shows "\<exists>buf'. rest = buf' @ q \<and> CHR ''?'' \<notin> set buf'"
proof -
  from assms(1) obtain us where
    us: "(buf = D @ us \<and> us @ q = rest) \<or> (buf @ us = D \<and> q = us @ rest)"
    by (auto simp: append_eq_append_conv2)
  then show ?thesis
  proof
    assume a: "buf = D @ us \<and> us @ q = rest"
    then have "CHR ''?'' \<notin> set us" using assms(3) by auto
    then show ?thesis using a by blast
  next
    assume a: "buf @ us = D \<and> q = us @ rest"
    then have nq: "CHR ''?'' \<notin> set us" using assms(2) by auto
    show ?thesis
    proof (cases us)
      case Nil
      then have "rest = [] @ q" using a by simp
      then show ?thesis by (metis empty_iff list.set(1))
    next
      case (Cons x xs)
      then have "q \<noteq> []" using a by auto
      then obtain rq where "q = CHR ''?'' # rq" using assms(4) by auto
      then have "x = CHR ''?''" using a Cons by simp
      then show ?thesis using nq Cons by simp
    qed
  qed
qed

lemma query_of_shape:
  assumes "CHR ''?'' \<notin> set buf"
  shows "query_of (buf @ query_part u) = url_RawQuery u"
proof (cases "url_ForceQuery u \<or> url_RawQuery u \<noteq> []")
  case False
  then have q: "query_part u = []" "url_RawQuery u = []" by (simp_all add: query_part_def)
  have "count_list buf CHR ''?'' = 0" using assms by (simp add: count_list_0_iff)
  then show ?thesis using q Cut_absent [OF assms] by (simp add: query_of_def)
next
  case True
  then have q: "query_part u = CHR ''?'' # url_RawQuery u" by (simp add: query_part_def)
  have c: "Cut (buf @ CHR ''?'' # url_RawQuery u) CHR ''?'' = (buf, url_RawQuery u)"
    by (rule Cut_first [OF assms])
  show ?thesis
  proof (cases "HasSuffix (buf @ query_part u) ''?'' \<and> count_list (buf @ query_part u) CHR ''?'' = 1")
    case f: True
    then have "count_list (url_RawQuery u) CHR ''?'' = 0" using q by simp
    then have n: "CHR ''?'' \<notin> set (url_RawQuery u)" by (simp add: count_list_0_iff)
    have "last (buf @ query_part u) = CHR ''?''"
      using f HasSuffix_one [of "buf @ query_part u" "CHR ''?''"] by simp
    then have "url_RawQuery u = []"
      using n q by (cases "url_RawQuery u = []") (auto dest: last_in_set)
    then show ?thesis using f by (simp add: query_of_def)
  next
    case False
    have "query_of (buf @ query_part u) = snd (Cut (buf @ query_part u) CHR ''?'')"
      by (simp only: query_of_def False if_False)
    then show ?thesis by (simp only: q c snd_conv)
  qed
qed

lemma Parse_String_RawQuery:
  assumes "url_Fragment u = []" and "CHR ''#'' \<notin> set (url_RawQuery u)"
    and "CHR ''?'' \<notin> set (url_Scheme u)" and "CHR ''#'' \<notin> set (url_Scheme u)"
    and "CHR ''?'' \<notin> set (url_Opaque u)" and "CHR ''#'' \<notin> set (url_Opaque u)"
    and "CHR ''?'' \<notin> set (url_RawPath u)" and "CHR ''#'' \<notin> set (url_RawPath u)"
    and "Parse (URL_String u) = Ok u'"
  shows "url_RawQuery u' = url_RawQuery u"
proof -
  from URL_String_shape [OF assms(1,3-8)] obtain buf where
    buf: "URL_String u = buf @ query_part u" "CHR ''?'' \<notin> set buf" "CHR ''#'' \<notin> set buf"
    by (elim exE conjE)
  have "CHR ''#'' \<notin> set (URL_String u)"
    using buf assms(2) by (auto simp: query_part_def)
  then have "Cut (URL_String u) CHR ''#'' = (URL_String u, [])" by (rule Cut_absent)
  then have p: "parse_url (buf @ query_part u) = Ok u'"
    using assms(9) buf(1) by (auto simp: Parse_def split: parsed.splits if_splits)
  have qp: "query_part u = [] \<or> (\<exists>rq. query_part u = CHR ''?'' # rq)"
    by (simp add: query_part_def)
  from parse_url_Ok [OF p] consider
    (star) "buf @ query_part u = [CHR 0x2A]" "u' = empty_URL\<lparr>url_Path := [CHR 0x2A]\<rparr>"
  | (general) scheme rest0 where "getScheme (buf @ query_part u) = Ok (scheme, rest0)"
      "url_RawQuery u' = query_of rest0"
    by blast
  then show ?thesis
  proof cases
    case star
    note a = star
    have "CHR ''?'' \<notin> set (buf @ query_part u)" using a(1) by simp
    then have "query_part u = []" using qp by auto
    then have "url_RawQuery u = []" by (simp add: query_part_def split: if_splits)
    then show ?thesis using a(2) by (simp add: empty_URL_def)
  next
    case (general scheme rest0)
    note g = general(1) and q = general(2)
    have "\<exists>D. buf @ query_part u = D @ rest0 \<and> CHR ''?'' \<notin> set D"
    proof -
      from getScheme_Ok [OF g] show ?thesis
      proof
        assume "scheme = [] \<and> rest0 = buf @ query_part u"
        then have "buf @ query_part u = [] @ rest0 \<and> CHR ''?'' \<notin> set []" by simp
        then show ?thesis by blast
      next
        assume a: "buf @ query_part u = scheme @ CHR '':'' # rest0 \<and> (\<forall>c\<in>set scheme. sch c)"
        then have "CHR ''?'' \<notin> set (scheme @ [CHR '':''])"
          using sch_not_special by auto
        moreover have "buf @ query_part u = (scheme @ [CHR '':'']) @ rest0" using a by simp
        ultimately show ?thesis by blast
      qed
    qed
    then obtain D where D: "buf @ query_part u = D @ rest0" "CHR ''?'' \<notin> set D"
      by (elim exE conjE)
    from suffix_after_plain_prefix [OF D buf(2) qp] obtain buf' where
      "rest0 = buf' @ query_part u" "CHR ''?'' \<notin> set buf'"
      by (elim exE conjE)
    then show ?thesis using q query_of_shape [of buf' u] by simp
  qed
qed

lemma api_URL_Return:
  assumes "api_URL e r = Return u"
  shows "\<exists>base. url_Parse e (baseURL r) = Some base \<and> u = base\<lparr>url_Path := url_Path u\<rparr>"
  using assms by (auto simp: api_URL_def Let_def split: option.splits if_splits)

text \<open>
  Request construction in the fragment keeps the raw query of every URL that
  dispatch builds.
\<close>

lemma go_env_keeps_RawQuery:
  assumes "api_URL (go_env net) r = Return u"
    and "http_NewRequestWithContext (go_env net) ctx (Method r) (url_String (go_env net) u) (Body r)
           = Inr req"
  shows "url_RawQuery (req_URL req) = url_RawQuery u"
proof -
  from api_URL_Return [OF assms(1)] obtain base where
    base: "Parse_ptr (baseURL r) = Some base" "u = base\<lparr>url_Path := url_Path u\<rparr>"
    by (auto simp: go_env_def)
  have f: "url_Fragment u = url_Fragment base" "url_RawQuery u = url_RawQuery base"
    "url_Scheme u = url_Scheme base" "url_Opaque u = url_Opaque base"
    "url_RawPath u = url_RawPath base"
    by (subst base(2), simp)+
  from assms(2) obtain u' where
    u': "Parse (URL_String u) = Ok u'" "url_RawQuery (req_URL req) = url_RawQuery u'"
    by (auto simp: go_env_def NewRequestWithContext_def Let_def split: if_splits parsed.splits)
  show ?thesis
    using Parse_String_RawQuery [of u u'] Parse_ptr_plain [OF base(1)] u' f by simp
qed

section \<open>The query of the outgoing request\<close>

lemma Values_index_Add:
  "Values_index (Values_Add q k v) k' = (if k' = k then Values_index q k @ [v] else Values_index q k')"
  by (simp add: Values_index_def Values_Add_def update_conv)

lemma Values_index_add_query:
  "Values_index (add_query q kvs) k
     = Values_index q k @ map snd (filter (\<lambda>kv. fst kv = k) kvs)"
proof (induction kvs arbitrary: q)
  case Nil
  then show ?case by (simp add: add_query_def)
next
  case (Cons kv kvs)
  have "add_query q (kv # kvs) = add_query (Values_Add q (fst kv) (snd kv)) kvs"
    by (simp add: add_query_def case_prod_beta)
  then show ?case
    using Cons.IH [of "Values_Add q (fst kv) (snd kv)"] by (simp add: Values_index_Add)
qed

lemma filter_key_distinct:
  "distinct (map fst kvs) \<Longrightarrow>
     map snd (filter (\<lambda>kv. fst kv = k) kvs) = (case map_of kvs k of None \<Rightarrow> [] | Some v \<Rightarrow> [v])"
proof (induction kvs)
  case Nil
  then show ?case by simp
next
  case (Cons kv kvs)
  show ?case
  proof (cases "fst kv = k")
    case True
    then have "k \<notin> fst ` set kvs" using Cons.prems by auto
    then have "filter (\<lambda>kv. fst kv = k) kvs = []"
      by (auto simp: filter_empty_conv)
    then show ?thesis using True by (cases kv) simp
  next
    case False
    then show ?thesis using Cons by (cases kv) auto
  qed
qed

lemma req_URL_set_headers:
  "req_URL (set_headers e req kvs) = req_URL req"
  unfolding set_headers_def
  by (induction kvs arbitrary: req) (simp_all add: case_prod_beta)

lemma finish_request_URL:
  "req_URL (fst (finish_request e req r s)) =
     (req_URL req)\<lparr>url_RawQuery :=
        Values_Encode e (add_query (URL_Query e (req_URL req)) (map_range (Query r) (after_range s)))\<rparr>"
  by (simp add: finish_request_def Let_def req_URL_set_headers)

text \<open>
  Claim C7, as the code has it. Let the base URL parse, the URL be built, and
  request construction succeed and keep the raw query of the URL it is given (as
  \<^verbatim>\<open>http.NewRequestWithContext\<close> does, which parses the string form of the URL;
  for the fragment of net/url and net/http above this is lemma
  \<open>go_env_keeps_RawQuery\<close>). Then dispatch hands the transport the constructed request with its headers set and
  its query replaced by the canonical encoding (keys in sorted order) of these
  values: for every key, the values that \<^verbatim>\<open>url.ParseQuery\<close> reads for it from the
  raw query of the parsed base URL, followed by the entry of the Request's query map
  for that key, if it has one. Nothing else of the URL changes. So the entries are
  added to the parameters of the base URL that \<^verbatim>\<open>ParseQuery\<close> accepts; a pair it
  rejects is dropped. The built URL is the parsed base URL with only its path
  replaced: \<open>Path\<close> goes into the path alone and brings no parameter.
\<close>

theorem C7_query_entries_added:
  assumes "api_URL e r = Return u"
    and "http_NewRequestWithContext e ctx (Method r) (url_String e u) (Body r) = Inr req"
    and "url_RawQuery (req_URL req) = url_RawQuery u"
    and "distinct (map fst (map_entries (Query r) s))"
  shows "\<exists>base req2 q2 ks.
           url_Parse e (baseURL r) = Some base \<and> u = base\<lparr>url_Path := url_Path u\<rparr>
         \<and> events (snd (SendWithCtx e ctx r s)) = events s @ [EvDo req2]
         \<and> req_URL req2 = (req_URL req)\<lparr>url_RawQuery := Values_Encode e q2\<rparr>
         \<and> (\<forall>k. Values_index q2 k
                = Values_index (url_ParseQuery e (url_RawQuery base)) k
                  @ (case map_of (map_entries (Query r) s) k of None \<Rightarrow> [] | Some v \<Rightarrow> [v]))
         \<and> sorted ks \<and> distinct ks \<and> set ks = fst ` set q2
         \<and> Values_Encode e q2 = foldl (encode_key e q2) [] ks"
proof -
  let ?visited = "map_range (Query r) (after_range s)"
  let ?q2 = "add_query (URL_Query e (req_URL req)) ?visited"
  let ?req2 = "fst (finish_request e req r s)"
  let ?ks = "sort (remdups (map fst ?q2))"
  from api_URL_Return [OF assms(1)] obtain base where
    base: "url_Parse e (baseURL r) = Some base" "u = base\<lparr>url_Path := url_Path u\<rparr>"
    by (elim exE conjE)
  have "url_RawQuery u = url_RawQuery (base\<lparr>url_Path := url_Path u\<rparr>)"
    using base(2) by simp
  then have rq: "url_RawQuery (req_URL req) = url_RawQuery base"
    using assms(3) by simp
  have present: "URL_Query e (req_URL req) = url_ParseQuery e (url_RawQuery base)"
    by (simp add: URL_Query_def rq)
  have ev: "events (snd (SendWithCtx e ctx r s)) = events s @ [EvDo ?req2]"
    using assms(1,2) by (simp add: SendWithCtx_def do_request_state finish_request_state)
  have url: "req_URL ?req2 = (req_URL req)\<lparr>url_RawQuery := Values_Encode e ?q2\<rparr>"
    by (rule finish_request_URL)
  have vis: "?visited = permute (next_choice (after_range s)) (map_entries (Query r) s)"
    by (simp add: map_range_def map_entries_heap_cong [of "after_range s" s])
  have dv: "distinct (map fst ?visited)"
    using assms(4) by (simp add: vis distinct_keys_permute)
  have mv: "map_of ?visited = map_of (map_entries (Query r) s)"
    using assms(4) by (simp add: vis map_of_permute)
  have idx: "Values_index ?q2 k
                = Values_index (url_ParseQuery e (url_RawQuery base)) k
                  @ (case map_of (map_entries (Query r) s) k of None \<Rightarrow> [] | Some v \<Rightarrow> [v])" for k
    using Values_index_add_query [of "URL_Query e (req_URL req)" ?visited k]
      filter_key_distinct [OF dv, of k]
    by (simp only: present mv)
  have ks: "sorted ?ks" "distinct ?ks" "set ?ks = fst ` set ?q2"
    by simp_all
  have enc: "Values_Encode e ?q2 = foldl (encode_key e ?q2) [] ?ks"
    by (simp add: Values_Encode_def)
  show ?thesis
    using base ev url idx ks enc
    by (intro exI [of _ base] exI [of _ ?req2] exI [of _ ?q2] exI [of _ ?ks]) simp
qed

text \<open>
  The claim as stated fails for the path: a query written into \<open>Path\<close> is not a query
  of the outgoing request. With base URL \<^verbatim>\<open>https://api.example.com/v1?a=1\<close>, path
  \<^verbatim>\<open>/items?b=2\<close> and query entry \<open>q = v1\<close>, the request goes to
  \<^verbatim>\<open>https://api.example.com/v1/items%3Fb=2?a=1&q=v1\<close>: its query has no \<open>b\<close>.
\<close>

theorem C7_counterexample:
  "events (snd (SendWithCtx (go_env (canned_net ''{}'')) Background example_request_pq example_state2))
     = [EvDo \<lparr>req_ctx = Background, req_Method = ''GET'',
              req_URL = \<lparr>url_Scheme = ''https'', url_Opaque = [], url_Host = ''api.example.com'',
                         url_Path = ''/v1/items?b=2'', url_RawPath = [], url_OmitHost = False,
                         url_ForceQuery = False, url_RawQuery = ''a=1&q=v1'', url_Fragment = []\<rparr>,
              req_Header = [(''Authorization'', [''Bearer t''])], req_Body = []\<rparr>]
   \<and> Values_index (ParseQuery ''a=1&q=v1'') ''b'' = []
   \<and> Values_index (ParseQuery ''a=1&q=v1'') ''a'' = [''1'']
   \<and> URL_String \<lparr>url_Scheme = ''https'', url_Opaque = [], url_Host = ''api.example.com'',
                  url_Path = ''/v1/items?b=2'', url_RawPath = [], url_OmitHost = False,
                  url_ForceQuery = False, url_RawQuery = ''a=1&q=v1'', url_Fragment = []\<rparr>
       = ''https://api.example.com/v1/items%3Fb=2?a=1&q=v1''"
  by code_simp

lemma example_q_built:
  "api_URL (go_env (canned_net ''{}'')) example_request_q
     = Return \<lparr>url_Scheme = ''https'', url_Opaque = [], url_Host = ''api.example.com'',
                url_Path = ''/v1/items'', url_RawPath = [], url_OmitHost = False,
                url_ForceQuery = False, url_RawQuery = ''q=v0&a=1'', url_Fragment = []\<rparr>
   \<and> http_NewRequestWithContext (go_env (canned_net ''{}'')) Background (Method example_request_q)
        (url_String (go_env (canned_net ''{}''))
           \<lparr>url_Scheme = ''https'', url_Opaque = [], url_Host = ''api.example.com'',
                url_Path = ''/v1/items'', url_RawPath = [], url_OmitHost = False,
                url_ForceQuery = False, url_RawQuery = ''q=v0&a=1'', url_Fragment = []\<rparr>)
        (Body example_request_q)
     = Inr \<lparr>req_ctx = Background, req_Method = ''GET'',
            req_URL = \<lparr>url_Scheme = ''https'', url_Opaque = [], url_Host = ''api.example.com'',
                url_Path = ''/v1/items'', url_RawPath = [], url_OmitHost = False,
                url_ForceQuery = False, url_RawQuery = ''q=v0&a=1'', url_Fragment = []\<rparr>,
            req_Header = [], req_Body = []\<rparr>
   \<and> URL_Query (go_env (canned_net ''{}''))
        \<lparr>url_Scheme = ''https'', url_Opaque = [], url_Host = ''api.example.com'',
                url_Path = ''/v1/items'', url_RawPath = [], url_OmitHost = False,
                url_ForceQuery = False, url_RawQuery = ''q=v0&a=1'', url_Fragment = []\<rparr>
     = [(''q'', [''v0'']), (''a'', [''1''])]
   \<and> map_entries (Query example_request_q) example_state2 = [(''q'', ''v1'')]"
  by code_simp

text \<open>
  A pair of the base URL's query that \<^verbatim>\<open>ParseQuery\<close> rejects is not sent on: with
  base URL \<^verbatim>\<open>https://api.example.com/v1?a=1&b=%zz\<close> the request goes out with the
  query \<^verbatim>\<open>a=1&q=v1\<close>.
\<close>

lemma example_rejected_pair_dropped:
  "map (\<lambda>ev. case ev of EvDo req \<Rightarrow> url_RawQuery (req_URL req) | _ \<Rightarrow> [])
     (events (snd (SendWithCtx (go_env (canned_net ''{}'')) Background example_request_zz example_state2)))
     = [''a=1&q=v1'']
   \<and> map_option url_RawQuery (Parse_ptr (baseURL example_request_zz)) = Some ''a=1&b=%zz''
   \<and> ParseQuery ''a=1&b=%zz'' = [(''a'', [''1''])]"
  by code_simp

theorem C7_witness:
  "\<exists>req2 q2. events (snd (SendWithCtx (go_env (canned_net ''{}'')) Background example_request_q
                          example_state2)) = [EvDo req2]
     \<and> url_RawQuery (req_URL req2) = Values_Encode (go_env (canned_net ''{}'')) q2
     \<and> Values_index q2 ''q'' = [''v0'', ''v1'']
     \<and> Values_index q2 ''a'' = [''1'']
     \<and> Values_index q2 ''b'' = []"
proof -
  let ?E = "go_env (canned_net ''{}'')"
  let ?u = "\<lparr>url_Scheme = ''https'', url_Opaque = [], url_Host = ''api.example.com'',
                url_Path = ''/v1/items'', url_RawPath = [], url_OmitHost = False,
                url_ForceQuery = False, url_RawQuery = ''q=v0&a=1'', url_Fragment = []\<rparr>"
  let ?req = "\<lparr>req_ctx = Background, req_Method = ''GET'', req_URL = ?u,
               req_Header = [], req_Body = []\<rparr>"
  have h1: "api_URL ?E example_request_q = Return ?u"
    using example_q_built by (elim conjE)
  have h2: "http_NewRequestWithContext ?E Background (Method example_request_q)
              (url_String ?E ?u) (Body example_request_q) = Inr ?req"
    using example_q_built by (elim conjE)
  have h3: "URL_Query ?E ?u = [(''q'', [''v0'']), (''a'', [''1''])]"
    using example_q_built by (elim conjE)
  have h4: "map_entries (Query example_request_q) example_state2 = [(''q'', ''v1'')]"
    using example_q_built by (elim conjE)
  have h5: "url_RawQuery (req_URL ?req) = url_RawQuery ?u"
    by (rule go_env_keeps_RawQuery [OF h1 h2])
  have h6: "distinct (map fst (map_entries (Query example_request_q) example_state2))"
    by (simp add: h4)
  from C7_query_entries_added [OF h1 h2 h5 h6]
  obtain base req2 q2 where
    a: "url_Parse ?E (baseURL example_request_q) = Some base"
       "?u = base\<lparr>url_Path := url_Path ?u\<rparr>"
       "events (snd (SendWithCtx ?E Background example_request_q example_state2))
          = events example_state2 @ [EvDo req2]"
       "req_URL req2 = (req_URL ?req)\<lparr>url_RawQuery := Values_Encode ?E q2\<rparr>"
       "\<forall>k. Values_index q2 k
                = Values_index (url_ParseQuery ?E (url_RawQuery base)) k
                  @ (case map_of (map_entries (Query example_request_q) example_state2) k of
                       None \<Rightarrow> [] | Some v \<Rightarrow> [v])"
    by (elim exE conjE)
  have "url_RawQuery ?u = url_RawQuery (base\<lparr>url_Path := url_Path ?u\<rparr>)"
    using a(2) by simp
  then have rq: "url_RawQuery base = ''q=v0&a=1''" by simp
  have pq: "url_ParseQuery ?E ''q=v0&a=1'' = [(''q'', [''v0'']), (''a'', [''1''])]"
    using h3 by (simp add: URL_Query_def)
  have "Values_index q2 ''q'' = [''v0'', ''v1'']" "Values_index q2 ''a'' = [''1'']"
    "Values_index q2 ''b'' = []"
    using a(5) by (simp_all add: rq pq h4 Values_index_def)
  then show ?thesis
    using a(3,4) by (intro exI [of _ req2] exI [of _ q2]) (simp add: example_state2_def)
qed

section \<open>A base URL that the parser rejects\<close>

text \<open>
  Claim C1 says that dispatch never panics in URL parsing and joining. The code
  discards the error of \<^verbatim>\<open>url.Parse\<close> and dereferences the pointer it returned; on
  every error that pointer is nil. So whenever the parser rejects the base URL,
  \<open>SendWithCtx\<close> panics before it constructs a request, and so do \<open>Send\<close> (after
  releasing its context) and the decode helper.
\<close>

theorem C1_rejected_baseURL_panics:
  assumes "url_Parse e (baseURL r) = None"
  shows "SendWithCtx e ctx r s = (Panic NilPointerDereference, s)
         \<and> fst (Send e r s) = Panic NilPointerDereference
         \<and> events (snd (Send e r s))
             = events s @ [EvCancel (context_WithTimeout Background (Timeout r) (clock s))]
         \<and> fst (SendWithJSONResponse e zero um r s) = Panic NilPointerDereference"
proof -
  have a: "SendWithCtx e ctx r s = (Panic NilPointerDereference, s)" for ctx
    using assms by (simp add: SendWithCtx_def api_URL_def)
  have b: "Send e r s = (Panic NilPointerDereference,
                         emit (EvCancel (context_WithTimeout Background (Timeout r) (clock s))) s)"
    by (simp add: Send_def Let_def a deferred_def)
  show ?thesis
    using a b by (simp add: SendWithJSONResponse_def)
qed

theorem C1_failing_input:
  "Parse ''://api.example.com'' = Rejected ''missing protocol scheme''
   \<and> url_Parse (go_env (canned_net ''{}'')) (baseURL example_request_bad) = None
   \<and> SendWithCtx (go_env (canned_net ''{}'')) Background example_request_bad example_state2
       = (Panic NilPointerDereference, example_state2)
   \<and> fst (Send (go_env (canned_net ''{}'')) example_request_bad example_state2)
       = Panic NilPointerDereference"
proof -
  have p: "Parse ''://api.example.com'' = Rejected ''missing protocol scheme''"
    by code_simp
  then have n: "url_Parse (go_env (canned_net ''{}'')) (baseURL example_request_bad) = None"
    by (simp add: go_env_def Parse_ptr_def example_request_bad_def)
  from C1_rejected_baseURL_panics
    [OF n, where ctx = Background and s = example_state2 and zero = "()"
       and um = "\<lambda>body j. (j, None)"] p n
  show ?thesis by simp
qed

section \<open>The trailing separator at the root\<close>

text \<open>The loop of \<open>Clean\<close> keeps its invariant, step by step.\<close>

lemma shrink_bounds:
  "dotdot \<le> w \<Longrightarrow> dotdot \<le> shrink out dotdot w \<and> shrink out dotdot w \<le> w
     \<and> (shrink out dotdot w = dotdot \<or> out ! (shrink out dotdot w) = CHR ''/'')"
proof (induction out dotdot w rule: shrink.induct)
  case (1 out dotdot w)
  show ?case
  proof (cases "w > dotdot \<and> out ! w \<noteq> CHR ''/''")
    case True
    then have "dotdot \<le> w - 1" by auto
    from "1.IH" [OF True this] True show ?thesis
      by (subst (1 2 3 4) shrink.simps) auto
  next
    case False
    then show ?thesis using "1.prems"
      by (subst (1 2 3 4) shrink.simps) auto
  qed
qed

lemma clean_inv_backtrack:
  assumes "clean_inv rooted out dotdot" and "length out > dotdot"
  shows "clean_inv rooted (take (shrink out dotdot (length out - 1)) out) dotdot"
proof -
  let ?w = "shrink out dotdot (length out - 1)"
  have le: "dotdot \<le> length out - 1" using assms(2) by simp
  from shrink_bounds [OF le, of out]
  have w: "dotdot \<le> ?w" "?w \<le> length out - 1" "?w = dotdot \<or> out ! ?w = CHR ''/''"
    by simp_all
  have wl: "?w < length out" using w(2) assms(2) by simp
  have len: "length (take ?w out) = ?w" using wl by simp
  have c1: "dotdot \<le> length (take ?w out)" using w(1) len by simp
  have c2: "rooted \<longrightarrow> dotdot = 1 \<and> take 1 (take ?w out) = ''/''"
    using assms(1) w(1) by (auto simp: clean_inv_def min_def)
  have c3: "\<not> rooted \<longrightarrow> dotdot = 0 \<or> (0 < dotdot \<and> take ?w out ! (dotdot - 1) \<noteq> CHR ''/'')"
    using assms(1) w(1) by (auto simp: clean_inv_def)
  have c4: "\<forall>i. Suc i < length (take ?w out) \<longrightarrow> take ?w out ! i = CHR ''/'' \<longrightarrow>
              take ?w out ! Suc i \<noteq> CHR ''/''"
    using assms(1) wl by (auto simp: clean_inv_def)
  have c5: "take ?w out \<noteq> [] \<longrightarrow> last (take ?w out) = CHR ''/'' \<longrightarrow> rooted \<and> length (take ?w out) = 1"
  proof (intro impI)
    assume ne: "take ?w out \<noteq> []" and l: "last (take ?w out) = CHR ''/''"
    then have w0: "0 < ?w" by auto
    have lastw: "last (take ?w out) = out ! (?w - 1)"
      using w0 wl ne len by (simp add: last_conv_nth)
    show "rooted \<and> length (take ?w out) = 1"
    proof (cases "?w = dotdot")
      case True
      then show ?thesis using assms(1) l lastw w0 len
        by (auto simp: clean_inv_def)
    next
      case False
      then have sl: "out ! ?w = CHR ''/''" using w(3) by simp
      have "Suc (?w - 1) < length out" using w0 wl by simp
      then have "out ! (?w - 1) = CHR ''/'' \<longrightarrow> out ! Suc (?w - 1) \<noteq> CHR ''/''"
        using assms(1) by (auto simp: clean_inv_def)
      then show ?thesis using sl l lastw w0 by simp
    qed
  qed
  show ?thesis
    unfolding clean_inv_def using c1 c2 c3 c4 c5 by blast
qed


lemma nth_snoc_last:
  "Suc i = length xs \<Longrightarrow> (xs @ ys) ! i = last xs"
proof -
  assume a: "Suc i = length xs"
  then have "xs \<noteq> []" "i = length xs - 1" "i < length xs" by auto
  then show ?thesis by (simp add: nth_append last_conv_nth)
qed

lemma nth_beyond_in_set:
  "length xs \<le> i \<Longrightarrow> i < length (xs @ ys) \<Longrightarrow> (xs @ ys) ! i \<in> set ys"
  by (simp add: nth_append)

lemma clean_inv_dotdot:
  assumes "clean_inv rooted out dotdot" and "\<not> rooted"
  shows "clean_inv rooted ((if length out > 0 then out @ ''/'' else out) @ ''..'')
           (length ((if length out > 0 then out @ ''/'' else out) @ ''..''))"
proof (cases "out = []")
  case True
  then show ?thesis using assms(2) by (auto simp: clean_inv_def nth_Cons')
next
  case False
  then have l: "last out \<noteq> CHR ''/''"
    using assms by (auto simp: clean_inv_def)
  have adj: "\<forall>i. Suc i < length out \<longrightarrow> out ! i = CHR ''/'' \<longrightarrow> out ! Suc i \<noteq> CHR ''/''"
    using assms(1) by (simp add: clean_inv_def)
  have "(out @ ''/..'') ! i = CHR ''/'' \<longrightarrow> (out @ ''/..'') ! Suc i \<noteq> CHR ''/''"
    if "Suc i < length (out @ ''/..'')" for i
  proof (cases "Suc i < length out")
    case True
    then show ?thesis using adj by (simp add: nth_append)
  next
    case f: False
    show ?thesis
    proof (cases "Suc i = length out")
      case True
      then show ?thesis using l nth_snoc_last [OF True, of "''/..''"] by simp
    next
      case False
      then have "length out \<le> i" using f by simp
      then show ?thesis using that
        by (auto simp: nth_append nth_Cons' split: if_splits)
    qed
  qed
  then show ?thesis
    using False assms(2) by (simp add: clean_inv_def nth_append)
qed

lemma clean_inv_element_gen:
  assumes "clean_inv rooted out dotdot"
    and "out1 = out \<or> (out1 = out @ ''/'' \<and> out \<noteq> [] \<and> last out \<noteq> CHR ''/'')"
    and "\<forall>x \<in> set el. x \<noteq> CHR ''/''" and "el \<noteq> []"
  shows "clean_inv rooted (out1 @ el) dotdot"
proof -
  have adj: "\<forall>i. Suc i < length out \<longrightarrow> out ! i = CHR ''/'' \<longrightarrow> out ! Suc i \<noteq> CHR ''/''"
    and d: "dotdot \<le> length out"
    and r: "rooted \<longrightarrow> dotdot = 1 \<and> take 1 out = ''/''"
    and nr: "\<not> rooted \<longrightarrow> dotdot = 0 \<or> (0 < dotdot \<and> out ! (dotdot - 1) \<noteq> CHR ''/'')"
    using assms(1) by (simp_all add: clean_inv_def)
  have len: "length out \<le> length out1" using assms(2) by auto
  have pre: "\<And>i. i < length out \<Longrightarrow> out1 ! i = out ! i"
    using assms(2) by (auto simp: nth_append)
  have c1: "dotdot \<le> length (out1 @ el)" using d len by simp
  have c2: "rooted \<longrightarrow> dotdot = 1 \<and> take 1 (out1 @ el) = ''/''"
    using r assms(2) by (cases out) auto
  have c3: "\<not> rooted \<longrightarrow> dotdot = 0 \<or> (0 < dotdot \<and> (out1 @ el) ! (dotdot - 1) \<noteq> CHR ''/'')"
  proof (cases "0 < dotdot")
    case True
    then have lt: "dotdot - 1 < length out" using d by simp
    then have "(out1 @ el) ! (dotdot - 1) = out ! (dotdot - 1)"
      using pre [OF lt] len by (simp add: nth_append)
    then show ?thesis using nr True by simp
  next
    case False
    then show ?thesis by simp
  qed
  have adj1: "out1 ! i = CHR ''/'' \<longrightarrow> out1 ! Suc i \<noteq> CHR ''/''" if a: "Suc i < length out1" for i
  proof (cases "Suc i < length out")
    case True
    then show ?thesis using adj pre [of i] pre [of "Suc i"] by simp
  next
    case False
    then have o: "out1 = out @ ''/''" "last out \<noteq> CHR ''/''" "Suc i = length out"
      using assms(2) a by auto
    show ?thesis using nth_snoc_last [OF o(3), of "''/''"] o by simp
  qed
  have c4: "\<forall>i. Suc i < length (out1 @ el) \<longrightarrow> (out1 @ el) ! i = CHR ''/'' \<longrightarrow>
               (out1 @ el) ! Suc i \<noteq> CHR ''/''"
  proof (intro allI impI)
    fix i assume a: "Suc i < length (out1 @ el)" "(out1 @ el) ! i = CHR ''/''"
    show "(out1 @ el) ! Suc i \<noteq> CHR ''/''"
    proof (cases "Suc i < length out1")
      case True
      then show ?thesis using a adj1 [OF True] by (simp add: nth_append)
    next
      case False
      then have "(out1 @ el) ! Suc i \<in> set el"
        using a(1) by (intro nth_beyond_in_set) simp_all
      then show ?thesis using assms(3) by blast
    qed
  qed
  have c5: "out1 @ el \<noteq> [] \<longrightarrow> last (out1 @ el) = CHR ''/'' \<longrightarrow> rooted \<and> length (out1 @ el) = 1"
    using assms(3,4) by (auto simp: last_append)
  show ?thesis
    unfolding clean_inv_def using c1 c2 c3 c4 c5 by blast
qed

lemma clean_inv_element:
  assumes "clean_inv rooted out dotdot" and "c \<noteq> CHR ''/''" and "CHR ''/'' \<notin> set el"
  shows "clean_inv rooted
           ((if rooted \<and> length out \<noteq> 1 \<or> \<not> rooted \<and> length out \<noteq> 0 then out @ ''/'' else out)
              @ c # el) dotdot"
proof (rule clean_inv_element_gen [OF assms(1)])
  have l: "out \<noteq> [] \<longrightarrow> last out = CHR ''/'' \<longrightarrow> rooted \<and> length out = 1"
    and r: "rooted \<longrightarrow> dotdot = 1 \<and> take 1 out = ''/''"
    using assms(1) by (simp_all add: clean_inv_def)
  show "(if rooted \<and> length out \<noteq> 1 \<or> \<not> rooted \<and> length out \<noteq> 0 then out @ ''/'' else out) = out
      \<or> ((if rooted \<and> length out \<noteq> 1 \<or> \<not> rooted \<and> length out \<noteq> 0 then out @ ''/'' else out)
            = out @ ''/'' \<and> out \<noteq> [] \<and> last out \<noteq> CHR ''/'')"
    using l r by (cases "out = []") auto
  show "\<forall>x \<in> set (c # el). x \<noteq> CHR ''/''" using assms(2,3) by auto
  show "c # el \<noteq> []" by simp
qed

lemma clean_loop_inv:
  "clean_inv rooted out dotdot \<Longrightarrow> \<exists>d. clean_inv rooted (clean_loop rooted p out dotdot) d"
proof (induction rooted p out dotdot rule: clean_loop.induct)
  case (1 rooted out dotdot)
  then show ?case by auto
next
  case (2 rooted c rest out dotdot)
  show ?case
  proof (cases "c = CHR ''/''")
    case True
    from "2.IH"(1) [OF True "2.prems"] show ?thesis using True by simp
  next
    case nslash: False
    show ?thesis
    proof (cases "c = CHR ''.'' \<and> (rest = [] \<or> hd rest = CHR ''/'')")
      case True
      from "2.IH"(2) [OF nslash True "2.prems"] show ?thesis using True nslash by simp
    next
      case ndot: False
      show ?thesis
      proof (cases "c = CHR ''.'' \<and> rest \<noteq> [] \<and> hd rest = CHR ''.''
              \<and> (tl rest = [] \<or> hd (tl rest) = CHR ''/'')")
        case dd: True
        show ?thesis
        proof (cases "length out > dotdot")
          case True
          from "2.IH"(3) [OF nslash ndot dd True clean_inv_backtrack [OF "2.prems" True]]
          show ?thesis using nslash ndot dd True by simp
        next
          case nb: False
          show ?thesis
          proof (cases rooted)
            case True
            then have r: "\<not> \<not> rooted" by simp
            from "2.IH"(5) [OF nslash ndot dd nb r "2.prems"]
            show ?thesis using nslash ndot dd nb True by simp
          next
            case False
            from "2.IH"(4) [OF nslash ndot dd nb False refl clean_inv_dotdot [OF "2.prems" False]]
            show ?thesis using nslash ndot dd nb False by (simp add: Let_def)
          qed
        qed
      next
        case el: False
        have "CHR ''/'' \<notin> set (takeWhile (\<lambda>x. x \<noteq> CHR ''/'') rest)"
          by (auto dest: set_takeWhileD)
        from "2.IH"(6) [OF nslash ndot el refl clean_inv_element [OF "2.prems" nslash this]]
        obtain d where d: "clean_inv rooted
            (clean_loop rooted (dropWhile (\<lambda>x. x \<noteq> CHR ''/'') rest)
               ((if rooted \<and> length out \<noteq> 1 \<or> \<not> rooted \<and> length out \<noteq> 0
                 then out @ ''/'' else out) @ c # takeWhile (\<lambda>x. x \<noteq> CHR ''/'') rest) dotdot) d"
          ..
        have "clean_loop rooted (c # rest) out dotdot
            = clean_loop rooted (dropWhile (\<lambda>x. x \<noteq> CHR ''/'') rest)
               ((if rooted \<and> length out \<noteq> 1 \<or> \<not> rooted \<and> length out \<noteq> 0
                 then out @ ''/'' else out) @ c # takeWhile (\<lambda>x. x \<noteq> CHR ''/'') rest) dotdot"
          by (subst clean_loop.simps) (simp only: nslash ndot el if_False Let_def)
        with d show ?thesis by auto
      qed
    qed
  qed
qed

lemma Clean_trailing:
  "Clean p \<noteq> [] \<and> (last (Clean p) = CHR ''/'' \<longrightarrow> Clean p = ''/'')"
proof (cases "p = []")
  case True
  then show ?thesis by (simp add: Clean_def)
next
  case False
  let ?rooted = "hd p = CHR ''/''"
  let ?out = "if ?rooted then clean_loop ?rooted (tl p) ''/'' 1 else clean_loop ?rooted p [] 0"
  have "\<exists>d. clean_inv ?rooted ?out d"
  proof (cases ?rooted)
    case True
    have "clean_inv True ''/'' 1" by (simp add: clean_inv_def)
    from clean_loop_inv [OF this, of "tl p"] True show ?thesis by simp
  next
    case False
    have "clean_inv False [] 0" by (simp add: clean_inv_def)
    from clean_loop_inv [OF this, of p] False show ?thesis by simp
  qed
  then obtain d where inv: "clean_inv ?rooted ?out d" ..
  have root: "?out = ''/''" if "?out \<noteq> []" "last ?out = CHR ''/''"
  proof -
    from inv that have "?rooted" "length ?out = 1" "take 1 ?out = ''/''"
      unfolding clean_inv_def by blast+
    then show ?thesis by simp
  qed
  have c: "Clean p = (if length ?out = 0 then ''.'' else ?out)"
    using False by (simp add: Clean_def Let_def)
  show ?thesis
  proof (cases "?out = []")
    case True
    then show ?thesis using c by simp
  next
    case ne: False
    then have "Clean p = ?out" using c by simp
    then show ?thesis using ne root by simp
  qed
qed


text \<open>
  Away from the root the trailing separator comes out as claimed: when the Request
  path ends with the separator and the clean join is not the root, the path that is
  built ends with exactly one.
\<close>

lemma api_URL_one_trailing_separator:
  assumes "url_Parse e (baseURL r) = Some base"
    and "HasSuffix (Path r) ''/''"
    and "path_Join [url_Path base, Path r] \<noteq> ''/''"
  shows "\<exists>u p. api_URL e r = Return u \<and> url_Path u = p @ ''/''
           \<and> p \<noteq> [] \<and> last p \<noteq> CHR ''/''"
proof -
  let ?j = "path_Join [url_Path base, Path r]"
  have "Path r \<noteq> []" using assms(2) by (auto simp: HasSuffix_def)
  then have j: "?j = Clean (foldl join_step [] [url_Path base, Path r])"
    by (simp add: path_Join_def)
  have "?j \<noteq> []" "last ?j \<noteq> CHR ''/''"
    using Clean_trailing [of "foldl join_step [] [url_Path base, Path r]"] assms(3) j by auto
  then show ?thesis
    using assms(1,2) by (simp add: api_URL_def Let_def)
qed

text \<open>
  Claim C2 says that a path with a trailing separator gives a URL path with exactly
  one. At the root the code gives two: for the base URL
  \<^verbatim>\<open>https://api.example.com\<close> (empty path) and the Request path \<^verbatim>\<open>/\<close>, the clean
  join is \<^verbatim>\<open>/\<close>, which already ends with the separator, and the code appends
  another. The request goes to \<^verbatim>\<open>https://api.example.com//?q=v1\<close>.
\<close>

theorem C2_root_path_gets_two_separators:
  "Parse (baseURL example_request_root)
     = Ok \<lparr>url_Scheme = ''https'', url_Opaque = [], url_Host = ''api.example.com'',
            url_Path = [], url_RawPath = [], url_OmitHost = False, url_ForceQuery = False,
            url_RawQuery = [], url_Fragment = []\<rparr>
   \<and> Path example_request_root = ''/''
   \<and> path_Join [[], ''/''] = ''/''
   \<and> api_URL (go_env (canned_net ''{}'')) example_request_root
     = Return \<lparr>url_Scheme = ''https'', url_Opaque = [], url_Host = ''api.example.com'',
            url_Path = ''//'', url_RawPath = [], url_OmitHost = False, url_ForceQuery = False,
            url_RawQuery = [], url_Fragment = []\<rparr>
   \<and> events (snd (SendWithCtx (go_env (canned_net ''{}'')) Background example_request_root
                     example_state2))
     = [EvDo \<lparr>req_ctx = Background, req_Method = ''GET'',
              req_URL = \<lparr>url_Scheme = ''https'', url_Opaque = [], url_Host = ''api.example.com'',
                         url_Path = ''//'', url_RawPath = [], url_OmitHost = False,
                         url_ForceQuery = False, url_RawQuery = ''q=v1'', url_Fragment = []\<rparr>,
              req_Header = [(''Authorization'', [''Bearer t''])], req_Body = []\<rparr>]
   \<and> URL_String \<lparr>url_Scheme = ''https'', url_Opaque = [], url_Host = ''api.example.com'',
                  url_Path = ''//'', url_RawPath = [], url_OmitHost = False,
                  url_ForceQuery = False, url_RawQuery = ''q=v1'', url_Fragment = []\<rparr>
       = ''https://api.example.com//?q=v1''"
  by code_simp

text \<open>
  The input meets what the claim asks of it: the base path does not end with the
  separator, the Request path does; and the path that is built ends with two.
\<close>

theorem C2_failing_input:
  "\<exists>base u. url_Parse (go_env (canned_net ''{}'')) (baseURL example_request_root) = Some base
      \<and> \<not> HasSuffix (url_Path base) ''/''
      \<and> HasSuffix (Path example_request_root) ''/''
      \<and> api_URL (go_env (canned_net ''{}'')) example_request_root = Return u
      \<and> url_Path u = ''//''
      \<and> HasSuffix (url_Path u) ''//''"
proof -
  let ?base = "\<lparr>url_Scheme = ''https'', url_Opaque = [], url_Host = ''api.example.com'',
            url_Path = [], url_RawPath = [], url_OmitHost = False, url_ForceQuery = False,
            url_RawQuery = [], url_Fragment = []\<rparr>"
  have p: "Parse (baseURL example_request_root) = Ok ?base"
    and q: "Path example_request_root = ''/''"
    and u: "api_URL (go_env (canned_net ''{}'')) example_request_root
              = Return (?base\<lparr>url_Path := ''//''\<rparr>)"
    using C2_root_path_gets_two_separators by simp_all
  have "url_Parse (go_env (canned_net ''{}'')) (baseURL example_request_root) = Some ?base"
    using p by (simp add: go_env_def Parse_ptr_def)
  then show ?thesis
    using q u by (intro exI [of _ ?base] exI [of _ "?base\<lparr>url_Path := ''//''\<rparr>"])
      (simp add: HasSuffix_def)
qed

section \<open>The JSON body\<close>

text \<open>
  Claim C6, as the code has it. On a Request whose header map is initialised (every
  Request made by \<open>NewRequest\<close>), \<open>SetJSONBody\<close> returns an error exactly when the
  encoder fails, and then changes nothing. Otherwise it sets the body to the
  encoder's output and the \<^verbatim>\<open>Content-Type\<close> entry of the header table to
  \<^verbatim>\<open>application/json\<close>, replacing what was stored under that key and leaving every
  other entry and table alone. The body being exactly the encoder's output, decoding
  it gives back \<open>v\<close> whenever the codec in use round-trips \<open>v\<close>.
\<close>

theorem C6_SetJSONBody:
  assumes "Headers r = Some h"
  shows "(\<forall>err. json_Marshal v = Inl err \<longrightarrow>
             SetJSONBody json_Marshal r v s = Return (Some err, r, s))
       \<and> (\<forall>j. json_Marshal v = Inr j \<longrightarrow>
             (\<exists>s1. SetJSONBody json_Marshal r v s = Return (None, r\<lparr>Body := j\<rparr>, s1)
                \<and> map_of (heap s1 h)
                     = (map_of (heap s h))(''Content-Type'' \<mapsto> ''application/json'')
                \<and> (\<forall>b. b \<noteq> h \<longrightarrow> heap s1 b = heap s b)
                \<and> (\<forall>um z. fst (um j z) = v \<longrightarrow> fst (um (Body (r\<lparr>Body := j\<rparr>)) z) = v)))
       \<and> ((\<exists>err r1 s1. SetJSONBody json_Marshal r v s = Return (Some err, r1, s1))
            \<longleftrightarrow> (\<exists>err. json_Marshal v = Inl err))"
proof (cases "json_Marshal v")
  case (Inl err)
  then show ?thesis by (simp add: SetJSONBody_def)
next
  case (Inr j)
  let ?s1 = "s\<lparr>heap := (heap s)(h := AList.update ''Content-Type'' ''application/json'' (heap s h))\<rparr>"
  have "SetJSONBody json_Marshal r v s = Return (None, r\<lparr>Body := j\<rparr>, ?s1)"
    using Inr assms by (simp add: SetJSONBody_def SetHeader_def map_assign_Some Sprintf_v_def)
  then show ?thesis
    using Inr by (simp add: update_conv')
qed

text \<open>
  The claim as stated fails in its last part. The struct with the unexported field
  \<open>token\<close> encodes without error to \<^verbatim>\<open>{"id":7}\<close>; decoding that body into the same
  type gives \<open>token = 0\<close>, not the 42 that was set.
\<close>

theorem C6_counterexample:
  "SetJSONBody (Marshal_struct struct_private) example_request [7, 42] example_state2
     = Return (None, example_request\<lparr>Body := body_id_7\<rparr>,
               example_state2\<lparr>heap := (heap example_state2)
                  (2 := [(''Authorization'', ''Bearer t''), (''Content-Type'', ''application/json'')])\<rparr>)
   \<and> Unmarshal_struct struct_private body_id_7 (zero_struct struct_private) = ([7, 0], None)
   \<and> [7, 0] \<noteq> [7, 42 :: int]"
proof -
  have m: "Marshal_struct struct_private [7, 42] = Inr body_id_7"
    by code_simp
  have u: "Unmarshal_struct struct_private body_id_7 (zero_struct struct_private) = ([7, 0], None)"
    by code_simp
  have h: "heap example_state2 2 = [(''Authorization'', ''Bearer t'')]"
    by (simp add: example_state2_def)
  have "SetJSONBody (Marshal_struct struct_private) example_request [7, 42] example_state2
     = Return (None, example_request\<lparr>Body := body_id_7\<rparr>,
               example_state2\<lparr>heap := (heap example_state2)
                  (2 := [(''Authorization'', ''Bearer t''), (''Content-Type'', ''application/json'')])\<rparr>)"
    using m h
    by (simp add: SetJSONBody_def SetHeader_def map_assign_Some Sprintf_v_def example_request_def)
  then show ?thesis using u by simp
qed

theorem C6_witness:
  "(\<exists>s1. SetJSONBody (Marshal_struct struct_AX) example_request [1, 2] example_state3
            = Return (None, example_request\<lparr>Body := body_a1_x2\<rparr>, s1)
        \<and> map_of (heap s1 2) ''Content-Type'' = Some ''application/json''
        \<and> map_of (heap s1 2) ''Authorization'' = Some ''Bearer t''
        \<and> heap s1 1 = [(''q'', ''v1'')])
   \<and> map_of (heap example_state3 2) ''Content-Type'' = Some ''text/plain''
   \<and> fst (Unmarshal_struct struct_AX body_a1_x2 (zero_struct struct_AX)) = [1, 2]
   \<and> SetJSONBody Marshal_chan example_request [1, 2 :: int] example_state3
        = Return (Some ''json: unsupported type: chan int'', example_request, example_state3)"
proof -
  have hd: "Headers example_request = Some 2"
    by (simp add: example_request_def)
  have m: "Marshal_struct struct_AX [1, 2] = Inr body_a1_x2"
    by code_simp
  have u: "fst (Unmarshal_struct struct_AX body_a1_x2 (zero_struct struct_AX)) = [1, 2]"
    by code_simp
  have t: "heap example_state3 2 = [(''Authorization'', ''Bearer t''), (''Content-Type'', ''text/plain'')]"
    "heap example_state3 1 = [(''q'', ''v1'')]"
    by (simp_all add: example_state3_def example_state2_def)
  have "\<forall>j. Marshal_struct struct_AX [1, 2] = Inr j \<longrightarrow>
             (\<exists>s1. SetJSONBody (Marshal_struct struct_AX) example_request [1, 2] example_state3
                      = Return (None, example_request\<lparr>Body := j\<rparr>, s1)
                \<and> map_of (heap s1 2)
                     = (map_of (heap example_state3 2))(''Content-Type'' \<mapsto> ''application/json'')
                \<and> (\<forall>b. b \<noteq> 2 \<longrightarrow> heap s1 b = heap example_state3 b)
                \<and> (\<forall>um z. fst (um j z) = [1, 2 :: int] \<longrightarrow>
                       fst (um (Body (example_request\<lparr>Body := j\<rparr>)) z) = [1, 2]))"
    using C6_SetJSONBody [OF hd, of "Marshal_struct struct_AX" "[1, 2]" example_state3]
    by (elim conjE)
  from this [rule_format, OF m]
  obtain s1 where
    s1: "SetJSONBody (Marshal_struct struct_AX) example_request [1, 2] example_state3
            = Return (None, example_request\<lparr>Body := body_a1_x2\<rparr>, s1)"
        "map_of (heap s1 2) = (map_of (heap example_state3 2))(''Content-Type'' \<mapsto> ''application/json'')"
        "\<forall>b. b \<noteq> 2 \<longrightarrow> heap s1 b = heap example_state3 b"
    by (elim exE conjE)
  have f: "SetJSONBody Marshal_chan example_request [1, 2 :: int] example_state3
        = Return (Some ''json: unsupported type: chan int'', example_request, example_state3)"
    using C6_SetJSONBody [OF hd, of "Marshal_chan :: int list \<Rightarrow> error + bytes" "[1, 2]" example_state3]
    by (simp add: Marshal_chan_def)
  show ?thesis
    using s1 t u f by (simp add: exI [of _ s1])
qed

end
